theory Spec2Isabelle
  imports Main "HOL-Library.Word" "HOL-Library.Multiset"
begin

section \<open>JavaScript strings\<close>

text \<open>
  A JavaScript string is a sequence of UTF-16 code units. The functions of
  \<^verbatim>\<open>static/js/index.js\<close> work on code units throughout (the regular expressions
  carry no \<^verbatim>\<open>u\<close> flag), so a string is modelled as a list of 16-bit words.
  \<open>str\<close> embeds an ASCII literal.
\<close>

type_synonym cu = "16 word"
type_synonym jsstring = "cu list"

definition str :: "string \<Rightarrow> jsstring" where
  "str s = map (\<lambda>c. of_nat (of_char c)) s"

text \<open>
  The code units that ECMAScript calls WhiteSpace or LineTerminator. The same set is
  matched by the class \<^verbatim>\<open>\s\<close> and stripped by \<^verbatim>\<open>String.prototype.trim\<close>.
\<close>

definition is_space :: "cu \<Rightarrow> bool" where
  "is_space c \<longleftrightarrow>
     c = 0x09 \<or> c = 0x0A \<or> c = 0x0B \<or> c = 0x0C \<or> c = 0x0D \<or> c = 0x20 \<or>
     c = 0xA0 \<or> c = 0x1680 \<or> (0x2000 \<le> c \<and> c \<le> 0x200A) \<or>
     c = 0x2028 \<or> c = 0x2029 \<or> c = 0x202F \<or> c = 0x205F \<or> c = 0x3000 \<or>
     c = 0xFEFF"

definition trim :: "jsstring \<Rightarrow> jsstring" where
  "trim s = rev (dropWhile is_space (rev (dropWhile is_space s)))"

text \<open>A string is truthy iff it is not empty.\<close>

definition truthy_str :: "jsstring \<Rightarrow> bool" where
  "truthy_str s \<longleftrightarrow> s \<noteq> []"

text \<open>
  \<^verbatim>\<open>JSON.stringify\<close> of an array of strings. \<open>QuoteJSONString\<close> writes a
  string between double quotes (0x22): backspace, tab, line feed, form feed, carriage
  return, the double quote and the backslash (0x5C) as a backslash and a letter,
  every other code unit below 0x20 and every surrogate without its partner as
  \<^verbatim>\<open>\uXXXX\<close> with lowercase digits, a leading surrogate followed by a trailing
  one as the pair, and any other code unit as it is. The array is the quoted
  strings, separated by commas (0x2C), between brackets (0x5B, 0x5D).
\<close>

definition is_lead :: "cu \<Rightarrow> bool" where
  "is_lead c \<longleftrightarrow> 0xD800 \<le> c \<and> c \<le> 0xDBFF"

definition is_trail :: "cu \<Rightarrow> bool" where
  "is_trail c \<longleftrightarrow> 0xDC00 \<le> c \<and> c \<le> 0xDFFF"

definition hex_digit :: "nat \<Rightarrow> cu" where
  "hex_digit k = of_nat (if k < 10 then 48 + k else 87 + k)"

definition unicode_escape :: "cu \<Rightarrow> jsstring" where
  "unicode_escape c =
     (let n = unat c
      in [0x5C, 0x75, hex_digit (n div 4096), hex_digit (n div 256 mod 16),
          hex_digit (n div 16 mod 16), hex_digit (n mod 16)])"

definition escape_unit :: "cu \<Rightarrow> jsstring" where
  "escape_unit c =
     (if c = 0x08 then [0x5C, 0x62]
      else if c = 0x09 then [0x5C, 0x74]
      else if c = 0x0A then [0x5C, 0x6E]
      else if c = 0x0C then [0x5C, 0x66]
      else if c = 0x0D then [0x5C, 0x72]
      else if c = 0x22 then [0x5C, 0x22]
      else if c = 0x5C then [0x5C, 0x5C]
      else if c < 0x20 \<or> is_lead c \<or> is_trail c then unicode_escape c
      else [c])"

fun quote_units :: "jsstring \<Rightarrow> jsstring" where
  "quote_units [] = []"
| "quote_units [c] = escape_unit c"
| "quote_units (c # d # cs) =
     (if is_lead c \<and> is_trail d then c # d # quote_units cs
      else escape_unit c @ quote_units (d # cs))"

definition QuoteJSONString :: "jsstring \<Rightarrow> jsstring" where
  "QuoteJSONString s = 0x22 # quote_units s @ [0x22]"

fun join_commas :: "jsstring list \<Rightarrow> jsstring" where
  "join_commas [] = []"
| "join_commas [x] = x"
| "join_commas (x # y # ys) = x @ 0x2C # join_commas (y # ys)"

definition JSON_stringify :: "jsstring list \<Rightarrow> jsstring" where
  "JSON_stringify xs = 0x5B # join_commas (map QuoteJSONString xs) @ [0x5D]"

section \<open>Regular expressions\<close>

text \<open>
  The fragment of the regular-expression syntax that \<^verbatim>\<open>isValidEmail\<close> uses: a
  literal code unit, a negated class \<^verbatim>\<open>[^...]\<close> whose members are \<^verbatim>\<open>\s\<close> or
  single code units, concatenation and the greedy \<^verbatim>\<open>+\<close>.
\<close>

datatype class_item = Space | Unit cu

datatype regex = Lit cu | NotIn "class_item list" | Cat regex regex | Plus regex

fun in_item :: "class_item \<Rightarrow> cu \<Rightarrow> bool" where
  "in_item Space c = is_space c"
| "in_item (Unit u) c = (c = u)"

definition in_class :: "class_item list \<Rightarrow> cu \<Rightarrow> bool" where
  "in_class items c = list_ex (\<lambda>i. in_item i c) items"

text \<open>
  A backtracking matcher. \<open>rests r s\<close> lists, in the order in which the engine tries
  them, the remainders of \<open>s\<close> after each way of matching \<open>r\<close> against a prefix of \<open>s\<close>.
  \<open>repeat n f s\<close> applies a matcher one or more times, at most \<open>n\<close> levels deep; every
  pattern of this fragment consumes at least one code unit per match, so \<open>length s\<close>
  levels reach every match.
\<close>

fun repeat :: "nat \<Rightarrow> (jsstring \<Rightarrow> jsstring list) \<Rightarrow> jsstring \<Rightarrow> jsstring list" where
  "repeat 0 f s = []"
| "repeat (Suc n) f s = concat (map (\<lambda>t. repeat n f t @ [t]) (f s))"

primrec rests :: "regex \<Rightarrow> jsstring \<Rightarrow> jsstring list" where
  "rests (Lit c) s = (case s of [] \<Rightarrow> [] | x # xs \<Rightarrow> if x = c then [xs] else [])"
| "rests (NotIn items) s =
     (case s of [] \<Rightarrow> [] | x # xs \<Rightarrow> if in_class items x then [] else [xs])"
| "rests (Cat a b) s = concat (map (rests b) (rests a s))"
| "rests (Plus a) s = repeat (length s) (rests a) s"

text \<open>
  \<^verbatim>\<open>/^ r $/.test(s)\<close>: with both anchors and no flags, the test succeeds iff some way
  of matching \<open>r\<close> from the start of \<open>s\<close> leaves nothing.
\<close>

definition test_anchored :: "regex \<Rightarrow> jsstring \<Rightarrow> bool" where
  "test_anchored r s \<longleftrightarrow> [] \<in> set (rests r s)"

section \<open>Utility functions\<close>

text \<open>\<^verbatim>\<open>const re = /^[^\s@]+@[^\s@]+\.[^\s@]+$/; return re.test(email);\<close>\<close>

definition not_space_at :: regex where
  "not_space_at = NotIn [Space, Unit 0x40]"

definition email_re :: regex where
  "email_re =
     Cat (Plus not_space_at)
       (Cat (Lit 0x40) (Cat (Plus not_space_at) (Cat (Lit 0x2E) (Plus not_space_at))))"

definition isValidEmail :: "jsstring \<Rightarrow> bool" where
  "isValidEmail email = test_anchored email_re email"


text \<open>
  \<^verbatim>\<open>s.replace(/c/g, rep)\<close> for a pattern that is one literal code unit and a
  replacement text without \<^verbatim>\<open>$\<close>: every occurrence of the code unit is replaced.
\<close>

definition replace_all :: "cu \<Rightarrow> jsstring \<Rightarrow> jsstring \<Rightarrow> jsstring" where
  "replace_all c rep s = concat (map (\<lambda>x. if x = c then rep else [x]) s)"

text \<open>
  \<^verbatim>\<open>unsafe.replace(/&/g, "&amp;").replace(/</g, "&lt;").replace(/>/g, "&gt;")
        .replace(/"/g, "&quot;").replace(/'/g, "&#039;")\<close>
  The code units are \<open>&\<close> = 0x26, \<open><\<close> = 0x3C, \<open>>\<close> = 0x3E, the double quote = 0x22
  and the single quote = 0x27.
\<close>

definition escapeHtml :: "jsstring \<Rightarrow> jsstring" where
  "escapeHtml unsafe =
     replace_all 0x27 (str ''&#039;'')
       (replace_all 0x22 (str ''&quot;'')
         (replace_all 0x3E (str ''&gt;'')
           (replace_all 0x3C (str ''&lt;'')
             (replace_all 0x26 (str ''&amp;'') unsafe))))"

section \<open>Data model\<close>

text \<open>
  An email entry is \<^verbatim>\<open>{ id, email }\<close>; the client mints \<^verbatim>\<open>id\<close> with
  \<^verbatim>\<open>Date.now()\<close>. The snapshot \<^verbatim>\<open>originalContact\<close> is
  \<^verbatim>\<open>{ firstName, lastName, emails }\<close>; a contact has these fields and the \<^verbatim>\<open>id\<close>
  the server assigned, a number; the object built by \<^verbatim>\<open>getFormData\<close> has them and
  an \<^verbatim>\<open>id\<close> that may be absent.
\<close>

record email_entry =
  entry_id :: int
  email :: jsstring

record snapshot =
  firstName :: jsstring
  lastName :: jsstring
  emails :: "email_entry list"

record contact = snapshot +
  contact_id :: int

record form_data = snapshot +
  data_id :: "int option"

text \<open>A number is truthy iff it is not zero (\<^verbatim>\<open>NaN\<close> is not an integer).\<close>

definition truthy_num :: "int \<Rightarrow> bool" where
  "truthy_num n \<longleftrightarrow> n \<noteq> 0"

text \<open>
  \<^verbatim>\<open>String.prototype.toLowerCase\<close> and \<^verbatim>\<open>String.prototype.localeCompare\<close> are
  functions of the host (Unicode case mapping, the collation of the locale), and so
  are the messages of the \<^verbatim>\<open>TypeError\<close> that reading a property of
  \<^verbatim>\<open>null\<close> throws and of the one that the conversion of an object with no
  primitive value throws; they are parameters of the model.
\<close>

record env =
  toLowerCase :: "jsstring \<Rightarrow> jsstring"
  localeCompare :: "jsstring \<Rightarrow> jsstring \<Rightarrow> int"
  nullReadMessage :: jsstring
  notPrimitiveMessage :: jsstring

text \<open>
  A value that \<^verbatim>\<open>response.json()\<close> can give. A number is a floating-point
  value; the script only tests its truthiness and converts it to a string, so it is
  given by whether it is zero and by the text that the host's conversion yields. An
  object is its members in the order of the text.
\<close>

datatype json =
  JNull | JBool bool | JNum bool jsstring | JStr jsstring | JArr "json list"
  | JObj "(jsstring \<times> json) list"

text \<open>
  \<^verbatim>\<open>v.error\<close> for a value \<open>v\<close> other than \<^verbatim>\<open>null\<close>: the member of that name
  of an object, the last one when the text repeats the name, and \<^verbatim>\<open>undefined\<close>
  (\<open>None\<close>) when there is none or \<open>v\<close> is no object.
\<close>

fun error_property :: "json \<Rightarrow> json option" where
  "error_property (JObj members) = map_of (rev members) (str ''error'')"
| "error_property v = None"

fun truthy_json :: "json \<Rightarrow> bool" where
  "truthy_json JNull = False"
| "truthy_json (JBool b) = b"
| "truthy_json (JNum zero text) = (\<not> zero)"
| "truthy_json (JStr s) = truthy_str s"
| "truthy_json (JArr xs) = True"
| "truthy_json (JObj members) = True"

text \<open>
  The conversion to a string that \<^verbatim>\<open>new Error(message)\<close> applies. An object
  is converted by \<^verbatim>\<open>Object.prototype.toString\<close> unless it has a member
  \<^verbatim>\<open>toString\<close> of its own, which is no function: then neither that member nor
  \<^verbatim>\<open>valueOf\<close> gives a primitive value and the conversion throws a
  \<^verbatim>\<open>TypeError\<close> (\<open>None\<close>). An array is its elements converted and joined by
  commas, with nothing for \<^verbatim>\<open>null\<close>.
\<close>

fun ToString :: "json \<Rightarrow> jsstring option" where
  "ToString JNull = Some (str ''null'')"
| "ToString (JBool b) = Some (if b then str ''true'' else str ''false'')"
| "ToString (JNum zero text) = Some text"
| "ToString (JStr s) = Some s"
| "ToString (JArr xs) =
     map_option join_commas (those (map (\<lambda>x. if x = JNull then Some [] else ToString x) xs))"
| "ToString (JObj members) =
     (if map_of members (str ''toString'') = None then Some (str ''[object Object]'') else None)"

text \<open>
  What \<^verbatim>\<open>fetch\<close> can give, and the requests the client sends. A request is
  rejected with an error that has a message (the network fails), or it is answered.
  Of an answer the script reads \<^verbatim>\<open>response.ok\<close> and \<^verbatim>\<open>response.json()\<close>,
  which is rejected with a message when the body is not JSON. The bodies are those of
  the interface where the script uses them as such: a list of contacts for the list,
  and a contact for a save when the status is 2xx. With another status the body of the
  answer to a save is any JSON value; so is that of the answer to a delete, which the
  script never reads.
\<close>

datatype 'a parsed = Unparseable jsstring | Parsed 'a

datatype list_response = ListRejected jsstring | ListResponded bool "contact list parsed"

datatype save_response =
  SaveRejected jsstring | SaveNotOk "json parsed" | SaveOk "contact parsed"

datatype delete_response = DeleteRejected jsstring | DeleteNotOk "json parsed" | DeleteOk

datatype request = GET | POST form_data | PUT int form_data | DELETE int

text \<open>
  The module-level variables, the part of the document that the script reads back
  (the values of the two name fields, the value of the \<^verbatim>\<open>input\<close> inside
  \<^verbatim>\<open>#emailList\<close> when there is one, the rendered rows, the visibility and
  \<^verbatim>\<open>disabled\<close> flags) and what the script sends out: alerts, console errors
  and requests.
\<close>

record state =
  contacts :: "contact list"
  selectedContactId :: "int option"
  isAddingEmail :: bool
  isNewContact :: bool
  currentEmailList :: "email_entry list"
  originalContact :: "snapshot option"
  searchQuery :: jsstring
  firstNameInput :: jsstring
  lastNameInput :: jsstring
  emailInput :: "jsstring option"
  emailRows :: "jsstring list"
  contactsList :: "contact list"
  formHidden :: bool
  deleteBtnShown :: bool
  saveDisabled :: bool
  alerts :: "jsstring list"
  console :: "(jsstring \<times> jsstring) list"
  requests :: "request list"

text \<open>
  Setting the \<^verbatim>\<open>value\<close> of an \<^verbatim>\<open><input type="text">\<close> runs the value
  sanitization of the HTML standard for that type, which strips line feeds and carriage
  returns.
\<close>

definition text_value :: "jsstring \<Rightarrow> jsstring" where
  "text_value v = filter (\<lambda>c. c \<noteq> 0x0A \<and> c \<noteq> 0x0D) v"

section \<open>Search\<close>

text \<open>\<^verbatim>\<open>s.includes(q)\<close>: \<open>q\<close> occurs in \<open>s\<close> as a contiguous run.\<close>

fun js_includes :: "jsstring \<Rightarrow> jsstring \<Rightarrow> bool" where
  "js_includes [] q = (q = [])"
| "js_includes (x # xs) q = (take (length q) (x # xs) = q \<or> js_includes xs q)"

text \<open>The callback of \<^verbatim>\<open>contacts.filter\<close> in \<^verbatim>\<open>filterContacts\<close>.\<close>

definition matches_query :: "env \<Rightarrow> jsstring \<Rightarrow> contact \<Rightarrow> bool" where
  "matches_query e query contact =
     (let fullName = toLowerCase e (firstName contact @ str '' '' @ lastName contact);
          emails' = map (\<lambda>e'. toLowerCase e (email e')) (emails contact)
      in js_includes fullName query \<or> list_ex (\<lambda>email'. js_includes email' query) emails')"

text \<open>
  \<^verbatim>\<open>Array.prototype.sort\<close> with a comparison function: a stable sort. For a
  consistent comparison function every stable sort gives the same array; insertion
  from the right is one.
\<close>

fun insert_by :: "('a \<Rightarrow> 'a \<Rightarrow> int) \<Rightarrow> 'a \<Rightarrow> 'a list \<Rightarrow> 'a list" where
  "insert_by cmp x [] = [x]"
| "insert_by cmp x (y # ys) = (if cmp x y \<le> 0 then x # y # ys else y # insert_by cmp x ys)"

definition js_sort :: "('a \<Rightarrow> 'a \<Rightarrow> int) \<Rightarrow> 'a list \<Rightarrow> 'a list" where
  "js_sort cmp xs = foldr (insert_by cmp) xs []"

text \<open>
  Arrays are objects: \<^verbatim>\<open>filterContacts\<close> returns the very array it was given when
  the query is empty, \<^verbatim>\<open>filter\<close> and the spread \<^verbatim>\<open>[...a]\<close> allocate a new array,
  and \<^verbatim>\<open>sort\<close> sorts its array in place. The store maps the address of an array to
  its elements.
\<close>

record store =
  arrays :: "nat \<Rightarrow> contact list option"
  next_ref :: nat

definition deref :: "store \<Rightarrow> nat \<Rightarrow> contact list" where
  "deref h r = (case arrays h r of Some xs \<Rightarrow> xs | None \<Rightarrow> [])"

definition alloc :: "contact list \<Rightarrow> store \<Rightarrow> nat \<times> store" where
  "alloc xs h = (next_ref h, h\<lparr>arrays := (arrays h)(next_ref h \<mapsto> xs), next_ref := Suc (next_ref h)\<rparr>)"

definition filterContacts :: "env \<Rightarrow> nat \<Rightarrow> jsstring \<Rightarrow> store \<Rightarrow> nat \<times> store" where
  "filterContacts e contacts' query h =
     (if \<not> truthy_str query then (contacts', h)
      else let query = toLowerCase e query
           in alloc (filter (matches_query e query) (deref h contacts')) h)"

definition spread :: "nat \<Rightarrow> store \<Rightarrow> nat \<times> store" where
  "spread r h = alloc (deref h r) h"

definition sort_in_place :: "(contact \<Rightarrow> contact \<Rightarrow> int) \<Rightarrow> nat \<Rightarrow> store \<Rightarrow> store" where
  "sort_in_place cmp r h = h\<lparr>arrays := (arrays h)(r \<mapsto> js_sort cmp (deref h r))\<rparr>"

text \<open>
  The first lines of \<^verbatim>\<open>renderContactsList\<close>:
  \<^verbatim>\<open>const filteredContacts = filterContacts(contacts, searchQuery);
  const sortedContacts = [...filteredContacts].sort((a, b) =>
      a.lastName.localeCompare(b.lastName));\<close>
  The result is the address of \<^verbatim>\<open>sortedContacts\<close> and the store.
\<close>

definition sortedContacts :: "env \<Rightarrow> nat \<Rightarrow> jsstring \<Rightarrow> store \<Rightarrow> nat \<times> store" where
  "sortedContacts e contacts' query h =
     (let (filteredContacts, h1) = filterContacts e contacts' query h;
          (sorted', h2) = spread filteredContacts h1
      in (sorted', sort_in_place (\<lambda>a b. localeCompare e (lastName a) (lastName b)) sorted' h2))"

text \<open>
  \<^verbatim>\<open>renderContactsList\<close> in a state: the array \<^verbatim>\<open>contacts\<close> lives at address 0,
  the list is derived in the store, one row is rendered for each element of
  \<^verbatim>\<open>sortedContacts\<close>, and \<^verbatim>\<open>contacts\<close> is what the store holds at address 0
  afterwards.
\<close>

definition renderContactsList :: "env \<Rightarrow> state \<Rightarrow> state" where
  "renderContactsList e st =
     (let h = \<lparr>arrays = [0 \<mapsto> contacts st], next_ref = 1\<rparr>;
          (sorted', h') = sortedContacts e 0 (searchQuery st) h
      in st\<lparr>contacts := deref h' 0, contactsList := deref h' sorted'\<rparr>)"

section \<open>The script\<close>

text \<open>
  Each function of \<^verbatim>\<open>index.js\<close> is a function from the state before the call to
  the state after it. An \<^verbatim>\<open>async\<close> function takes the answers of the server as
  arguments and runs to its end in one step: what another event handler could do
  between two \<^verbatim>\<open>await\<close>s is outside the model.
\<close>

definition log_error :: "jsstring \<Rightarrow> jsstring \<Rightarrow> state \<Rightarrow> state" where
  "log_error label msg st = st\<lparr>console := console st @ [(label, msg)]\<rparr>"

definition alert :: "jsstring \<Rightarrow> state \<Rightarrow> state" where
  "alert msg st = st\<lparr>alerts := alerts st @ [msg]\<rparr>"

definition fetchContacts :: "env \<Rightarrow> list_response \<Rightarrow> state \<Rightarrow> state" where
  "fetchContacts e response st =
     (let st1 = st\<lparr>requests := requests st @ [GET]\<rparr>
      in case response of
           ListRejected msg \<Rightarrow> log_error (str ''Error fetching contacts:'') msg st1
         | ListResponded ok (Unparseable msg) \<Rightarrow>
             log_error (str ''Error fetching contacts:'') msg st1
         | ListResponded ok (Parsed body) \<Rightarrow> renderContactsList e (st1\<lparr>contacts := body\<rparr>))"

definition addNewEmailInput :: "state \<Rightarrow> state" where
  "addNewEmailInput st = st\<lparr>emailInput := Some []\<rparr>"

definition renderEmailList :: "state \<Rightarrow> state" where
  "renderEmailList st =
     (let st1 = st\<lparr>emailRows := map email (currentEmailList st), emailInput := None\<rparr>
      in if isAddingEmail st1 then addNewEmailInput st1 else st1)"

text \<open>
  \<^verbatim>\<open>checkForChanges\<close>. \<open>hasData\<close> and \<open>hasChanges\<close> are the truthiness of the
  source's values.
\<close>

definition hasUnsavedValidEmail :: "state \<Rightarrow> bool" where
  "hasUnsavedValidEmail st =
     (let unsavedEmail = (case emailInput st of Some v \<Rightarrow> trim v | None \<Rightarrow> [])
      in truthy_str unsavedEmail \<and> isValidEmail unsavedEmail)"

definition checkForChanges :: "state \<Rightarrow> state" where
  "checkForChanges st =
     (case originalContact st of
        None \<Rightarrow>
          (let hasData = (truthy_str (trim (firstNameInput st)) \<or>
                          truthy_str (trim (lastNameInput st)) \<or>
                          length (currentEmailList st) > 0 \<or>
                          hasUnsavedValidEmail st)
           in st\<lparr>saveDisabled := \<not> hasData\<rparr>)
      | Some original \<Rightarrow>
          (let hasChanges = (trim (firstNameInput st) \<noteq> firstName original \<or>
                             trim (lastNameInput st) \<noteq> lastName original \<or>
                             JSON_stringify (map email (currentEmailList st)) \<noteq>
                               JSON_stringify (map email (emails original)) \<or>
                             hasUnsavedValidEmail st)
           in st\<lparr>saveDisabled := \<not> hasChanges\<rparr>))"

definition selectContact :: "env \<Rightarrow> contact \<Rightarrow> state \<Rightarrow> state" where
  "selectContact e contact' st =
     (let st1 = st\<lparr>selectedContactId := Some (contact_id contact'),
                    originalContact := Some \<lparr>firstName = firstName contact',
                                            lastName = lastName contact',
                                            emails = emails contact'\<rparr>\<rparr>;
          st2 = renderContactsList e st1;
          st3 = st2\<lparr>formHidden := False,
                     firstNameInput := text_value (firstName contact'),
                     lastNameInput := text_value (lastName contact'),
                     currentEmailList := emails contact',
                     isAddingEmail := False\<rparr>;
          st4 = renderEmailList st3;
          st5 = st4\<lparr>deleteBtnShown := True\<rparr>
      in checkForChanges st5)"

definition truthy_id :: "int option \<Rightarrow> bool" where
  "truthy_id i = (case i of None \<Rightarrow> False | Some n \<Rightarrow> truthy_num n)"

definition clearForm :: "state \<Rightarrow> state" where
  "clearForm st =
     (let isAddingNew = (\<not> truthy_id (selectedContactId st) \<and>
                         firstNameInput st = [] \<and> lastNameInput st = []);
          st1 = st\<lparr>selectedContactId := None,
                    isNewContact := False,
                    firstNameInput := [],
                    lastNameInput := [],
                    currentEmailList := [],
                    emailRows := [],
                    emailInput := None,
                    isAddingEmail := False,
                    deleteBtnShown := False,
                    originalContact := None\<rparr>;
          st2 = renderEmailList st1
      in if \<not> isAddingNew then st2\<lparr>formHidden := True\<rparr> else st2)"

definition getFormData :: "state \<Rightarrow> form_data" where
  "getFormData st =
     \<lparr>firstName = trim (firstNameInput st),
      lastName = trim (lastNameInput st),
      emails = currentEmailList st,
      data_id = (if truthy_id (selectedContactId st) then selectedContactId st else None)\<rparr>"

text \<open>
  \<^verbatim>\<open>saveContact\<close>. With a status that is not 2xx,
  \<^verbatim>\<open>const error = await response.json();
  throw new Error(error.error || 'Failed to save contact');\<close>
  throws what \<^verbatim>\<open>json()\<close> throws when the body is not JSON, a
  \<^verbatim>\<open>TypeError\<close> when the body is \<^verbatim>\<open>null\<close>, and otherwise an error whose message
  is the \<^verbatim>\<open>error\<close> member converted to a string when that member is truthy, and
  the fixed text when it is not; when the conversion throws, it throws that
  \<^verbatim>\<open>TypeError\<close>. The \<^verbatim>\<open>catch\<close> block logs the error and alerts its
  message.
\<close>

definition save_failed :: "jsstring \<Rightarrow> state \<Rightarrow> state" where
  "save_failed msg st = alert msg (log_error (str ''Error saving contact:'') msg st)"

definition saveContact :: "env \<Rightarrow> form_data \<Rightarrow> save_response \<Rightarrow> list_response \<Rightarrow> state \<Rightarrow> state" where
  "saveContact e contactData response refetch st =
     (let request = (if truthy_id (data_id contactData)
                     then PUT (the (data_id contactData)) contactData
                     else POST contactData);
          st1 = st\<lparr>requests := requests st @ [request]\<rparr>
      in case response of
           SaveRejected msg \<Rightarrow> save_failed msg st1
         | SaveNotOk (Unparseable msg) \<Rightarrow> save_failed msg st1
         | SaveNotOk (Parsed error) \<Rightarrow>
             save_failed
               (if error = JNull then nullReadMessage e
                else case error_property error of
                       Some v \<Rightarrow>
                         if truthy_json v
                         then (case ToString v of Some message \<Rightarrow> message
                               | None \<Rightarrow> notPrimitiveMessage e)
                         else str ''Failed to save contact''
                     | None \<Rightarrow> str ''Failed to save contact'') st1
         | SaveOk (Unparseable msg) \<Rightarrow> save_failed msg st1
         | SaveOk (Parsed savedContact) \<Rightarrow>
             selectContact e savedContact (fetchContacts e refetch st1))"

definition delete_failed :: "jsstring \<Rightarrow> state \<Rightarrow> state" where
  "delete_failed msg st = alert msg (log_error (str ''Error deleting contact:'') msg st)"

definition deleteContact ::
  "env \<Rightarrow> int \<Rightarrow> bool \<Rightarrow> delete_response \<Rightarrow> list_response \<Rightarrow> state \<Rightarrow> state" where
  "deleteContact e i confirmed response refetch st =
     (if \<not> confirmed then st
      else let st1 = st\<lparr>requests := requests st @ [DELETE i]\<rparr>
           in case response of
                DeleteRejected msg \<Rightarrow> delete_failed msg st1
              | DeleteNotOk body \<Rightarrow> delete_failed (str ''Failed to delete contact'') st1
              | DeleteOk \<Rightarrow> clearForm (fetchContacts e refetch st1))"

subsection \<open>Event listeners\<close>

text \<open>
  \<^verbatim>\<open>currentEmailList.splice(index, 1)\<close> removes the element at \<open>index\<close>, and nothing
  when \<open>index\<close> is not below the length.
\<close>

definition splice1 :: "nat \<Rightarrow> 'a list \<Rightarrow> 'a list" where
  "splice1 index xs = take index xs @ drop (Suc index) xs"

text \<open>The click listener of the delete button of row \<open>index\<close> of the email list.\<close>

definition emailDelete_click :: "nat \<Rightarrow> state \<Rightarrow> state" where
  "emailDelete_click index st =
     checkForChanges (renderEmailList (st\<lparr>currentEmailList := splice1 index (currentEmailList st)\<rparr>))"

text \<open>
  The \<^verbatim>\<open>keydown\<close> listener of the email input, for the key Enter; \<open>now\<close> is what
  \<^verbatim>\<open>Date.now()\<close> returns. The listener exists only while the input does. The
  \<^verbatim>\<open>emailInput\<close> of the source is a document fragment, which has no parent
  element, so nothing is removed after \<^verbatim>\<open>renderEmailList()\<close>.
\<close>

definition emailInput_Enter :: "int \<Rightarrow> state \<Rightarrow> state" where
  "emailInput_Enter now st =
     (case emailInput st of
        None \<Rightarrow> st
      | Some v \<Rightarrow>
          (let email' = trim v
           in if truthy_str email' \<and> isValidEmail email'
              then checkForChanges
                     ((renderEmailList
                        (st\<lparr>currentEmailList :=
                              currentEmailList st @ [\<lparr>entry_id = now, email = email'\<rparr>]\<rparr>))
                      \<lparr>isAddingEmail := False\<rparr>)
              else checkForChanges st))"

text \<open>The \<^verbatim>\<open>input\<close> listeners: the user has changed the value of a field to \<open>v\<close>.\<close>

definition emailInput_input :: "jsstring \<Rightarrow> state \<Rightarrow> state" where
  "emailInput_input v st =
     (case emailInput st of
        None \<Rightarrow> st
      | Some _ \<Rightarrow> checkForChanges (st\<lparr>emailInput := Some v\<rparr>))"

definition firstNameInput_input :: "jsstring \<Rightarrow> state \<Rightarrow> state" where
  "firstNameInput_input v st = checkForChanges (st\<lparr>firstNameInput := v\<rparr>)"

definition lastNameInput_input :: "jsstring \<Rightarrow> state \<Rightarrow> state" where
  "lastNameInput_input v st = checkForChanges (st\<lparr>lastNameInput := v\<rparr>)"

definition searchInput_input :: "env \<Rightarrow> jsstring \<Rightarrow> state \<Rightarrow> state" where
  "searchInput_input e v st = renderContactsList e (st\<lparr>searchQuery := v\<rparr>)"

text \<open>The click listener of row \<open>i\<close> of the rendered contact list.\<close>

definition contactItem_click :: "env \<Rightarrow> nat \<Rightarrow> state \<Rightarrow> state" where
  "contactItem_click e i st =
     (if i < length (contactsList st) then selectContact e (contactsList st ! i) st else st)"

definition addEmailBtn_click :: "state \<Rightarrow> state" where
  "addEmailBtn_click st =
     (if \<not> isAddingEmail st
      then let st1 = st\<lparr>isAddingEmail := True\<rparr>
           in if isNewContact st1 then renderEmailList st1
              else (case find (\<lambda>c. Some (contact_id c) = selectedContactId st1) (contacts st1) of
                      Some contact' \<Rightarrow> renderEmailList st1
                    | None \<Rightarrow> st1)
      else st)"

definition addContactBtn_click :: "state \<Rightarrow> state" where
  "addContactBtn_click st = (clearForm st)\<lparr>isNewContact := True, formHidden := False\<rparr>"

text \<open>
  The first block of the click listener of the save button:
  \<^verbatim>\<open>const emailInput = emailList.querySelector('input');
  if (emailInput) { const email = emailInput.value.trim();
    if (email && isValidEmail(email)) { currentEmailList.push({ id: Date.now(), email }); } }\<close>
\<close>

definition commit_unsaved_email :: "int \<Rightarrow> state \<Rightarrow> state" where
  "commit_unsaved_email now st =
     (case emailInput st of
        None \<Rightarrow> st
      | Some v \<Rightarrow>
          (let email' = trim v
           in if truthy_str email' \<and> isValidEmail email'
              then st\<lparr>currentEmailList :=
                       currentEmailList st @ [\<lparr>entry_id = now, email = email'\<rparr>]\<rparr>
              else st))"

definition saveBtn_click :: "env \<Rightarrow> int \<Rightarrow> save_response \<Rightarrow> list_response \<Rightarrow> state \<Rightarrow> state" where
  "saveBtn_click e now response refetch st =
     (let st1 = commit_unsaved_email now st;
          contactData = getFormData st1
      in saveContact e contactData response refetch st1)"

definition deleteBtn_click ::
  "env \<Rightarrow> bool \<Rightarrow> delete_response \<Rightarrow> list_response \<Rightarrow> state \<Rightarrow> state" where
  "deleteBtn_click e confirmed response refetch st =
     (if truthy_id (selectedContactId st)
      then deleteContact e (the (selectedContactId st)) confirmed response refetch st
      else st)"

definition cancelBtn_click :: "state \<Rightarrow> state" where
  "cancelBtn_click st = clearForm st"

text \<open>
  The state when the script has been loaded, and \<^verbatim>\<open>DOMContentLoaded\<close>: the call
  of \<^verbatim>\<open>fetchContacts\<close> runs up to its first \<^verbatim>\<open>await\<close>, the form is cleared
  and hidden, and then the answer arrives.
\<close>

definition initial :: state where
  "initial =
     \<lparr>contacts = [], selectedContactId = None, isAddingEmail = False, isNewContact = False,
      currentEmailList = [], originalContact = None, searchQuery = [],
      firstNameInput = [], lastNameInput = [], emailInput = None, emailRows = [],
      contactsList = [], formHidden = True, deleteBtnShown = True, saveDisabled = False,
      alerts = [], console = [], requests = []\<rparr>"

definition DOMContentLoaded :: "env \<Rightarrow> list_response \<Rightarrow> state \<Rightarrow> state" where
  "DOMContentLoaded e response st = fetchContacts e response ((clearForm st)\<lparr>formHidden := True\<rparr>)"

datatype event =
    Loaded list_response
  | ContactItemClick nat
  | AddContactClick
  | AddEmailClick
  | EmailInput jsstring
  | EmailEnter int
  | EmailDeleteClick nat
  | FirstNameInput jsstring
  | LastNameInput jsstring
  | SearchInput jsstring
  | SaveClick int save_response list_response
  | DeleteClick bool delete_response list_response
  | CancelClick

fun handle :: "env \<Rightarrow> event \<Rightarrow> state \<Rightarrow> state" where
  "handle e (Loaded response) st = DOMContentLoaded e response st"
| "handle e (ContactItemClick i) st = contactItem_click e i st"
| "handle e AddContactClick st = addContactBtn_click st"
| "handle e AddEmailClick st = addEmailBtn_click st"
| "handle e (EmailInput v) st = emailInput_input v st"
| "handle e (EmailEnter now) st = emailInput_Enter now st"
| "handle e (EmailDeleteClick index) st = emailDelete_click index st"
| "handle e (FirstNameInput v) st = firstNameInput_input v st"
| "handle e (LastNameInput v) st = lastNameInput_input v st"
| "handle e (SearchInput v) st = searchInput_input e v st"
| "handle e (SaveClick now response refetch) st = saveBtn_click e now response refetch st"
| "handle e (DeleteClick confirmed response refetch) st =
     deleteBtn_click e confirmed response refetch st"
| "handle e CancelClick st = cancelBtn_click st"

fun run :: "env \<Rightarrow> event list \<Rightarrow> state \<Rightarrow> state" where
  "run e [] st = st"
| "run e (ev # evs) st = run e evs (handle e ev st)"

section \<open>Notions used in the statements\<close>

text \<open>
  A reader for what \<open>JSON_stringify\<close> writes, used to show that different arrays
  are written differently: the code unit that a backslash and a letter stand for, the
  first code unit of a quoted text and what follows it, the text up to the closing
  quote, and the strings of an array.
\<close>

definition hex_value :: "cu \<Rightarrow> nat" where
  "hex_value x = (let k = unat x in if 97 \<le> k then k - 87 else k - 48)"

definition letter_unit :: "cu \<Rightarrow> cu" where
  "letter_unit l =
     (if l = 0x62 then 0x08 else if l = 0x74 then 0x09 else if l = 0x6E then 0x0A
      else if l = 0x66 then 0x0C else if l = 0x72 then 0x0D else l)"

definition unescape :: "jsstring \<Rightarrow> cu \<times> jsstring" where
  "unescape s =
     (case s of
        x # l # a # b # c # d # r \<Rightarrow>
          if x \<noteq> 0x5C then (x, l # a # b # c # d # r)
          else if l = 0x75
          then (of_nat (4096 * hex_value a + 256 * hex_value b + 16 * hex_value c + hex_value d), r)
          else (letter_unit l, a # b # c # d # r)
      | x # l # r \<Rightarrow> if x \<noteq> 0x5C then (x, l # r) else (letter_unit l, r)
      | x # r \<Rightarrow> (x, r)
      | [] \<Rightarrow> (0, []))"

fun unquote :: "nat \<Rightarrow> jsstring \<Rightarrow> jsstring \<times> jsstring" where
  "unquote 0 s = ([], s)"
| "unquote (Suc n) [] = ([], [])"
| "unquote (Suc n) (x # r) =
     (if x = 0x22 then ([], r)
      else let (c, rest) = unescape (x # r); (cs, r') = unquote n rest in (c # cs, r'))"

fun elements :: "nat \<Rightarrow> jsstring \<Rightarrow> jsstring list" where
  "elements 0 s = []"
| "elements (Suc k) [] = []"
| "elements (Suc k) (x # r) =
     (if x = 0x22
      then let (s, rest) = unquote (length r) r
           in s # (case rest of y # r' \<Rightarrow> if y = 0x2C then elements k r' else [] | [] \<Rightarrow> [])
      else [])"

definition JSON_parse :: "jsstring \<Rightarrow> jsstring list" where
  "JSON_parse s = (case s of [] \<Rightarrow> [] | x # r \<Rightarrow> elements (length r) r)"

text \<open>The words matched by a pattern, independently of the matcher.\<close>

primrec lang :: "regex \<Rightarrow> jsstring set" where
  "lang (Lit c) = {[c]}"
| "lang (NotIn items) = {[x] | x. \<not> in_class items x}"
| "lang (Cat a b) = {u @ v | u v. u \<in> lang a \<and> v \<in> lang b}"
| "lang (Plus a) = {concat ws | ws. ws \<noteq> [] \<and> set ws \<subseteq> lang a}"

text \<open>A code unit that is neither whitespace nor \<open>@\<close>.\<close>

definition plain :: "cu \<Rightarrow> bool" where
  "plain c \<longleftrightarrow> \<not> is_space c \<and> c \<noteq> 0x40"

text \<open>The HTML entity that stands for a code unit, and the code unit itself when it needs none.\<close>

definition entity :: "cu \<Rightarrow> jsstring" where
  "entity c =
     (if c = 0x26 then str ''&amp;''
      else if c = 0x3C then str ''&lt;''
      else if c = 0x3E then str ''&gt;''
      else if c = 0x22 then str ''&quot;''
      else if c = 0x27 then str ''&#039;''
      else [c])"

text \<open>
  The words of the statements about the contact list: a string contains a query, a
  contact is kept by a query, one contact is not after another by last name, a
  comparison is consistent on the contacts of a list (total and transitive), and the
  list that is shown for a query. A host with ASCII case mapping and code-unit
  collation, and two contacts, serve as examples.
\<close>

definition contains :: "jsstring \<Rightarrow> jsstring \<Rightarrow> bool" where
  "contains s q \<longleftrightarrow> (\<exists>u v. s = u @ q @ v)"

definition kept :: "env \<Rightarrow> jsstring \<Rightarrow> contact \<Rightarrow> bool" where
  "kept e query c \<longleftrightarrow>
     contains (toLowerCase e (firstName c @ str '' '' @ lastName c)) (toLowerCase e query) \<or>
     (\<exists>em \<in> set (emails c). contains (toLowerCase e (email em)) (toLowerCase e query))"

definition by_lastName :: "env \<Rightarrow> contact \<Rightarrow> contact \<Rightarrow> bool" where
  "by_lastName e a b \<longleftrightarrow> localeCompare e (lastName a) (lastName b) \<le> 0"

definition consistent_on :: "contact list \<Rightarrow> (contact \<Rightarrow> contact \<Rightarrow> bool) \<Rightarrow> bool" where
  "consistent_on cs le \<longleftrightarrow>
     (\<forall>a \<in> set cs. \<forall>b \<in> set cs. le a b \<or> le b a) \<and>
     (\<forall>a \<in> set cs. \<forall>b \<in> set cs. \<forall>c \<in> set cs. le a b \<and> le b c \<longrightarrow> le a c)"

definition visible :: "env \<Rightarrow> jsstring \<Rightarrow> contact list \<Rightarrow> contact list" where
  "visible e query cs =
     js_sort (\<lambda>a b. localeCompare e (lastName a) (lastName b))
       (if query = [] then cs else filter (matches_query e (toLowerCase e query)) cs)"

definition zed :: contact where
  "zed = \<lparr>firstName = [], lastName = str ''Zed'', emails = [], contact_id = 1\<rparr>"

definition adams :: contact where
  "adams = \<lparr>firstName = [], lastName = str ''Adams'', emails = [], contact_id = 2\<rparr>"

definition ascii_lower :: "jsstring \<Rightarrow> jsstring" where
  "ascii_lower s = map (\<lambda>c. if 0x41 \<le> c \<and> c \<le> 0x5A then c + 0x20 else c) s"

fun compare_units :: "jsstring \<Rightarrow> jsstring \<Rightarrow> int" where
  "compare_units [] [] = 0"
| "compare_units [] (y # ys) = - 1"
| "compare_units (x # xs) [] = 1"
| "compare_units (x # xs) (y # ys) =
     (if x < y then - 1 else if y < x then 1 else compare_units xs ys)"

definition ascii_env :: env where
  "ascii_env = \<lparr>toLowerCase = ascii_lower, localeCompare = compare_units,
                nullReadMessage = str ''error is null'',
                notPrimitiveMessage = str ''Cannot convert object to primitive value''\<rparr>"

text \<open>
  Whether \<open>checkForChanges\<close> enables the save button, and the text of the email field
  that has not been committed (empty when there is no field).
\<close>

definition hasChanges :: "state \<Rightarrow> bool" where
  "hasChanges st \<longleftrightarrow> \<not> saveDisabled (checkForChanges st)"

definition pending_text :: "state \<Rightarrow> jsstring" where
  "pending_text st = (case emailInput st of Some v \<Rightarrow> v | None \<Rightarrow> [])"

text \<open>
  States reached from the initial one. A new contact whose email field holds
  \<open>a@b.co\<close> followed by a no-break space (0xA0, which the sanitization of an email
  field keeps, being no ASCII whitespace); a contact that the server lists with a
  space before its first name, selected; a new contact, untouched and with a first
  name typed; the contact Ann Lee, selected, edited, and edited back.
\<close>

definition nbsp_pending :: state where
  "nbsp_pending =
     run ascii_env [AddContactClick, AddEmailClick, EmailInput (str ''a@b.co'' @ [0xA0])] initial"

definition padded :: contact where
  "padded = \<lparr>firstName = str '' Ann'', lastName = str ''Lee'', emails = [], contact_id = 7\<rparr>"

definition padded_selected :: state where
  "padded_selected =
     run ascii_env [Loaded (ListResponded True (Parsed [padded])), ContactItemClick 0] initial"

definition new_untouched :: state where
  "new_untouched = run ascii_env [AddContactClick] initial"

definition new_named :: state where
  "new_named = run ascii_env [AddContactClick, FirstNameInput (str ''X'')] initial"

definition ann :: contact where
  "ann = \<lparr>firstName = str ''Ann'', lastName = str ''Lee'',
          emails = [\<lparr>entry_id = 1, email = str ''ann@x.com''\<rparr>], contact_id = 7\<rparr>"

definition ann_selected :: state where
  "ann_selected =
     run ascii_env [Loaded (ListResponded True (Parsed [ann])), ContactItemClick 0] initial"

definition ann_edited :: state where
  "ann_edited = run ascii_env [FirstNameInput (str ''Anna'')] ann_selected"

definition ann_reverted :: state where
  "ann_reverted = run ascii_env [FirstNameInput (str ''Ann'')] ann_edited"

text \<open>
  A contact to which the server gave the id 0, selected, edited and saved while the
  network is down.
\<close>

definition zero :: contact where
  "zero = \<lparr>firstName = str ''Ann'', lastName = str ''Lee'', emails = [], contact_id = 0\<rparr>"

definition zero_selected :: state where
  "zero_selected =
     run ascii_env [Loaded (ListResponded True (Parsed [zero])), ContactItemClick 0] initial"

definition zero_saved :: state where
  "zero_saved =
     run ascii_env
       [Loaded (ListResponded True (Parsed [zero])), ContactItemClick 0,
        FirstNameInput (str ''Anna''),
        SaveClick 5 (SaveRejected (str ''Failed to fetch'')) (ListRejected (str ''Failed to fetch''))]
       initial"

text \<open>The request that \<open>saveContact\<close> sends for the data of the form.\<close>

definition save_request :: "form_data \<Rightarrow> request" where
  "save_request contactData =
     (case data_id contactData of
        Some i \<Rightarrow> if truthy_num i then PUT i contactData else POST contactData
      | None \<Rightarrow> POST contactData)"

text \<open>
  A new contact Ann Lee with \<open>ann@x.com\<close> typed in the email field, and the contact Ann
  Lee, selected and renamed, with a second address typed in the email field.
\<close>

definition new_ann :: state where
  "new_ann =
     run ascii_env
       [AddContactClick, FirstNameInput (str ''Ann''), LastNameInput (str ''Lee''),
        AddEmailClick, EmailInput (str ''ann@x.com'')]
       initial"

definition ann_pending :: state where
  "ann_pending = run ascii_env [AddEmailClick, EmailInput (str ''a2@x.com'')] ann_edited"

text \<open>
  Removal of an entry as the specification words it: by its local id. Two entries are
  committed with the Enter key while \<^verbatim>\<open>Date.now()\<close> reads 7 both times.
\<close>

definition removeEmail_by_id :: "int \<Rightarrow> email_entry list \<Rightarrow> email_entry list" where
  "removeEmail_by_id localId xs = filter (\<lambda>entry. entry_id entry \<noteq> localId) xs"

definition twins :: state where
  "twins =
     run ascii_env
       [AddContactClick, AddEmailClick, EmailInput (str ''a@b.co''), EmailEnter 7,
        EmailInput (str ''c@d.eu''), EmailEnter 7]
       initial"

text \<open>
  What the local ids depend on. The entries of a list have pairwise distinct ids; the
  contacts that the server delivers have such lists; a reading of \<^verbatim>\<open>Date.now()\<close>
  is not the id of an entry of the current list. An event is fresh in a state when
  the clock reading and the answers of the server that come with it are so, and a
  sequence of events is admissible when each event is fresh in the state in which it
  happens. The invariant adds the contacts held and shown, from which an email list is
  copied on selection.
\<close>

definition distinct_ids :: "email_entry list \<Rightarrow> bool" where
  "distinct_ids xs \<longleftrightarrow> distinct (map entry_id xs)"

definition served_list :: "list_response \<Rightarrow> bool" where
  "served_list response =
     (case response of
        ListResponded ok (Parsed body) \<Rightarrow> list_all (\<lambda>c. distinct_ids (emails c)) body
      | _ \<Rightarrow> True)"

definition served_contact :: "save_response \<Rightarrow> bool" where
  "served_contact response =
     (case response of SaveOk (Parsed c) \<Rightarrow> distinct_ids (emails c) | _ \<Rightarrow> True)"

definition fresh_id :: "int \<Rightarrow> state \<Rightarrow> bool" where
  "fresh_id now st \<longleftrightarrow> \<not> list_ex (\<lambda>entry. entry_id entry = now) (currentEmailList st)"

fun fresh_event :: "state \<Rightarrow> event \<Rightarrow> bool" where
  "fresh_event st (EmailEnter now) = fresh_id now st"
| "fresh_event st (SaveClick now response refetch) =
     (fresh_id now st \<and> served_contact response \<and> served_list refetch)"
| "fresh_event st (Loaded response) = served_list response"
| "fresh_event st (DeleteClick confirmed response refetch) = served_list refetch"
| "fresh_event st ev = True"

fun admissible :: "env \<Rightarrow> event list \<Rightarrow> state \<Rightarrow> bool" where
  "admissible e [] st = True"
| "admissible e (ev # evs) st = (fresh_event st ev \<and> admissible e evs (handle e ev st))"

definition ids_invariant :: "state \<Rightarrow> bool" where
  "ids_invariant st \<longleftrightarrow>
     distinct_ids (currentEmailList st) \<and>
     list_all (\<lambda>c. distinct_ids (emails c)) (contacts st) \<and>
     list_all (\<lambda>c. distinct_ids (emails c)) (contactsList st)"

definition two_commits :: "event list" where
  "two_commits =
     [AddContactClick, AddEmailClick, EmailInput (str ''a@b.co''), EmailEnter 7,
      EmailInput (str ''c@d.eu''), EmailEnter 8]"











text \<open>The list of Ann Lee refreshed, where the server answers with status 500 and \<open>[]\<close>.\<close>

definition refreshed_500 :: state where
  "refreshed_500 = fetchContacts ascii_env (ListResponded False (Parsed [])) ann_selected"

section \<open>The validator\<close>

lemma lang_not_Nil: "w \<in> lang r \<Longrightarrow> w \<noteq> []"
proof (induction r arbitrary: w)
  case (Plus a)
  then obtain ws where ws: "w = concat ws" "ws \<noteq> []" "set ws \<subseteq> lang a" by auto
  then obtain x xs where "ws = x # xs" by (cases ws) auto
  with ws Plus.IH [of x] show ?case by auto
qed auto

lemma set_repeat_Suc:
  "set (repeat (Suc n) f s) = (\<Union>t \<in> set (f s). insert t (set (repeat n f t)))"
  by simp

text \<open>
  If \<open>f\<close> lists the remainders after one word of \<open>L\<close>, and no word of \<open>L\<close> is empty,
  then \<open>repeat\<close> with enough levels lists the remainders after one or more words of \<open>L\<close>.
\<close>

lemma repeat_set:
  assumes f: "\<And>s. set (f s) = {t. \<exists>w \<in> L. s = w @ t}" and L: "[] \<notin> L"
  shows "length s \<le> n \<Longrightarrow>
    set (repeat n f s) = {t. \<exists>ws. ws \<noteq> [] \<and> set ws \<subseteq> L \<and> s = concat ws @ t}"
proof (induction n arbitrary: s)
  case 0
  then have s: "s = []" by simp
  have "\<not> (\<exists>ws. ws \<noteq> [] \<and> set ws \<subseteq> L \<and> [] = concat ws @ t)" for t :: jsstring
  proof
    assume "\<exists>ws. ws \<noteq> [] \<and> set ws \<subseteq> L \<and> [] = concat ws @ t"
    then obtain ws where ws: "ws \<noteq> []" "set ws \<subseteq> L" "[] = concat ws @ t" by blast
    then obtain x xs where "ws = x # xs" by (cases ws) auto
    with ws L show False by auto
  qed
  with s show ?case by simp
next
  case (Suc n)
  have shorter: "length t \<le> n" if "t \<in> set (f s)" for t
  proof -
    from that f obtain w where "w \<in> L" "s = w @ t" by auto
    with L have "w \<noteq> []" by auto
    with \<open>s = w @ t\<close> Suc.prems show ?thesis by (cases w) auto
  qed
  show ?case
  proof (rule set_eqI, rule iffI)
    fix t' assume "t' \<in> set (repeat (Suc n) f s)"
    then obtain t where t: "t \<in> set (f s)" and t': "t' \<in> set (repeat n f t) \<or> t' = t"
      unfolding set_repeat_Suc by blast
    from t f obtain w where w: "w \<in> L" "s = w @ t" by auto
    from t' show "t' \<in> {t. \<exists>ws. ws \<noteq> [] \<and> set ws \<subseteq> L \<and> s = concat ws @ t}"
    proof
      assume "t' \<in> set (repeat n f t)"
      with Suc.IH [OF shorter [OF t]] obtain ws
        where "ws \<noteq> []" "set ws \<subseteq> L" "t = concat ws @ t'" by auto
      with w have "w # ws \<noteq> [] \<and> set (w # ws) \<subseteq> L \<and> s = concat (w # ws) @ t'" by simp
      then show ?thesis by blast
    next
      assume "t' = t"
      with w have "[w] \<noteq> [] \<and> set [w] \<subseteq> L \<and> s = concat [w] @ t'" by simp
      then show ?thesis by blast
    qed
  next
    fix t' assume "t' \<in> {t. \<exists>ws. ws \<noteq> [] \<and> set ws \<subseteq> L \<and> s = concat ws @ t}"
    then obtain ws where ws: "ws \<noteq> []" "set ws \<subseteq> L" "s = concat ws @ t'" by auto
    then obtain w ws' where cons: "ws = w # ws'" by (cases ws) auto
    let ?t = "concat ws' @ t'"
    from ws cons have w: "w \<in> L" "s = w @ ?t" "set ws' \<subseteq> L" by auto
    with f have t: "?t \<in> set (f s)" by auto
    have "t' \<in> set (repeat n f ?t) \<or> t' = ?t"
    proof (cases "ws' = []")
      case True
      then show ?thesis by simp
    next
      case False
      with w Suc.IH [OF shorter [OF t]] show ?thesis by auto
    qed
    with t show "t' \<in> set (repeat (Suc n) f s)" unfolding set_repeat_Suc by blast
  qed
qed

lemma rests_lang: "set (rests r s) = {t. \<exists>w \<in> lang r. s = w @ t}"
proof (induction r arbitrary: s)
  case (Lit c)
  show ?case by (cases s) auto
next
  case (NotIn items)
  show ?case by (cases s) auto
next
  case (Cat a b)
  have "set (rests (Cat a b) s) = (\<Union>t \<in> set (rests a s). set (rests b t))" by simp
  also have "\<dots> = {t. \<exists>u \<in> lang a. \<exists>v \<in> lang b. s = (u @ v) @ t}"
    unfolding Cat.IH by auto
  also have "\<dots> = {t. \<exists>w \<in> lang (Cat a b). s = w @ t}"
    by (simp only: lang.simps) blast
  finally show ?case .
next
  case (Plus a)
  have "[] \<notin> lang a" using lang_not_Nil by blast
  from repeat_set [of "rests a" "lang a", OF Plus.IH this, of s "length s"]
  show ?case by auto
qed

lemma test_anchored_lang: "test_anchored r s \<longleftrightarrow> s \<in> lang r"
  by (simp add: test_anchored_def rests_lang)

lemma concat_singletons:
  "set ws \<subseteq> {[x] | x. P x} \<Longrightarrow>
     length (concat ws) = length ws \<and> (\<forall>x \<in> set (concat ws). P x)"
  by (induction ws) auto

lemma lang_Plus_NotIn:
  "lang (Plus (NotIn items)) = {w. w \<noteq> [] \<and> (\<forall>x \<in> set w. \<not> in_class items x)}"
proof (rule set_eqI, rule iffI)
  fix w assume "w \<in> lang (Plus (NotIn items))"
  then obtain ws
    where ws: "w = concat ws" "ws \<noteq> []" "set ws \<subseteq> {[x] | x. \<not> in_class items x}"
    by auto
  from concat_singletons [OF ws(3)] ws(1)
  have "length w = length ws" and ok: "\<forall>x \<in> set w. \<not> in_class items x" by simp_all
  with ws(2) have "w \<noteq> []" by (cases w) simp_all
  with ok show "w \<in> {w. w \<noteq> [] \<and> (\<forall>x \<in> set w. \<not> in_class items x)}" by simp
next
  fix w assume "w \<in> {w. w \<noteq> [] \<and> (\<forall>x \<in> set w. \<not> in_class items x)}"
  then have w: "w \<noteq> []" "\<forall>x \<in> set w. \<not> in_class items x" by auto
  let ?ws = "map (\<lambda>x. [x]) w"
  have "concat ?ws = w" by (induction w) auto
  moreover have "?ws \<noteq> []" using w by simp
  moreover have "set ?ws \<subseteq> lang (NotIn items)" using w by auto
  ultimately have "\<exists>ws. w = concat ws \<and> ws \<noteq> [] \<and> set ws \<subseteq> lang (NotIn items)"
    by metis
  then show "w \<in> lang (Plus (NotIn items))" by (simp only: lang.simps(4) mem_Collect_eq)
qed

lemma lang_plus_plain: "lang (Plus not_space_at) = {w. w \<noteq> [] \<and> (\<forall>x \<in> set w. plain x)}"
  by (simp only: not_space_at_def lang_Plus_NotIn) (simp add: in_class_def plain_def)

lemma isValidEmail_iff:
  "isValidEmail s \<longleftrightarrow>
     (\<exists>a b c. s = a @ [0x40] @ b @ [0x2E] @ c \<and> a \<noteq> [] \<and> b \<noteq> [] \<and> c \<noteq> [] \<and>
        (\<forall>x \<in> set a. plain x) \<and> (\<forall>x \<in> set b. plain x) \<and> (\<forall>x \<in> set c. plain x))"
  unfolding isValidEmail_def test_anchored_lang email_re_def
  by (simp only: lang.simps(1,3) lang_plus_plain) (simp, blast)

lemmas validator_eval =
  isValidEmail_def test_anchored_def email_re_def not_space_at_def str_def in_class_def
  is_space_def

text \<open>
  C4. For every string \<open>s\<close>, \<open>isValidEmail s\<close> holds iff \<open>s\<close> is one or more code units
  that are neither whitespace nor \<open>@\<close>, then \<open>@\<close> (0x40), then one or more such code
  units, then a full stop (0x2E), then one or more such code units. The function is
  total and has no effect, being a function of HOL. It accepts \<open>a@b.co\<close> and rejects
  \<open>a@b\<close>, \<open>a b@c.d\<close> and the empty string.
\<close>

theorem isValidEmail_shape:
  "(isValidEmail s \<longleftrightarrow>
     (\<exists>a b c. s = a @ [0x40] @ b @ [0x2E] @ c \<and> a \<noteq> [] \<and> b \<noteq> [] \<and> c \<noteq> [] \<and>
        (\<forall>x \<in> set a. plain x) \<and> (\<forall>x \<in> set b. plain x) \<and> (\<forall>x \<in> set c. plain x))) \<and>
   isValidEmail (str ''a@b.co'') \<and> \<not> isValidEmail (str ''a@b'') \<and>
   \<not> isValidEmail (str ''a b@c.d'') \<and> \<not> isValidEmail (str '''')"
proof -
  have "isValidEmail (str ''a@b.co'')" by (simp add: validator_eval)
  moreover have "\<not> isValidEmail (str ''a@b'')" by (simp add: validator_eval)
  moreover have "\<not> isValidEmail (str ''a b@c.d'')" by (simp add: validator_eval)
  moreover have "\<not> isValidEmail (str '''')" by (simp add: validator_eval)
  ultimately show ?thesis using isValidEmail_iff [of s] by blast
qed

theorem isValidEmail_shape_witness:
  "\<exists>a b c. str ''ann@x.com'' = a @ [0x40] @ b @ [0x2E] @ c \<and> a \<noteq> [] \<and> b \<noteq> [] \<and> c \<noteq> [] \<and>
     (\<forall>x \<in> set a. plain x) \<and> (\<forall>x \<in> set b. plain x) \<and> (\<forall>x \<in> set c. plain x)"
proof -
  have "isValidEmail (str ''ann@x.com'')" by (simp add: validator_eval)
  with isValidEmail_shape [of "str ''ann@x.com''"] show ?thesis by blast
qed

section \<open>Escaping\<close>

lemma replace_all_append:
  "replace_all c rep (xs @ ys) = replace_all c rep xs @ replace_all c rep ys"
  by (simp add: replace_all_def)

lemma replace_all_concat:
  "replace_all c rep (concat xss) = concat (map (replace_all c rep) xss)"
  by (induction xss) (simp_all add: replace_all_append, simp add: replace_all_def)

lemma replace_all_concat_map:
  "replace_all c rep (concat (map f s)) = concat (map (\<lambda>x. replace_all c rep (f x)) s)"
  by (simp add: replace_all_concat comp_def)

lemma replace_all_units: "replace_all c rep s = concat (map (\<lambda>x. replace_all c rep [x]) s)"
  by (simp add: replace_all_def)

text \<open>The five replacements in a row, on one code unit.\<close>

lemma escape_unit:
  "replace_all 0x27 (str ''&#039;'')
     (replace_all 0x22 (str ''&quot;'')
       (replace_all 0x3E (str ''&gt;'')
         (replace_all 0x3C (str ''&lt;'')
           (replace_all 0x26 (str ''&amp;'') [x])))) = entity x"
  by (simp add: replace_all_def entity_def str_def)

lemma escapeHtml_entities: "escapeHtml s = concat (map entity s)"
proof -
  have "escapeHtml s = concat (map (\<lambda>x. replace_all 0x27 (str ''&#039;'')
     (replace_all 0x22 (str ''&quot;'')
       (replace_all 0x3E (str ''&gt;'')
         (replace_all 0x3C (str ''&lt;'')
           (replace_all 0x26 (str ''&amp;'') [x]))))) s)"
    unfolding escapeHtml_def
    by (subst replace_all_units [of "0x26"]) (simp only: replace_all_concat_map)
  then show ?thesis by (simp only: escape_unit)
qed

lemma entity_safe:
  "c \<in> set (entity x) \<Longrightarrow> c \<noteq> 0x3C \<and> c \<noteq> 0x3E \<and> c \<noteq> 0x22 \<and> c \<noteq> 0x27"
  by (auto simp: entity_def str_def split: if_splits)

text \<open>
  C10. For every input, \<open>escapeHtml\<close> replaces each \<open>&\<close>, \<open><\<close>, \<open>>\<close>, double quote and
  single quote of the input by its entity and leaves every other code unit as it is;
  the five replacements in the order of the source, \<open>&\<close> first, give exactly this text,
  so the \<open>&\<close> of an entity is never escaped again; and the output contains no \<open><\<close>
  (0x3C), no \<open>>\<close> (0x3E), no double quote (0x22) and no single quote (0x27).
\<close>

theorem escapeHtml_output:
  "escapeHtml s = concat (map entity s) \<and>
   0x3C \<notin> set (escapeHtml s) \<and> 0x3E \<notin> set (escapeHtml s) \<and>
   0x22 \<notin> set (escapeHtml s) \<and> 0x27 \<notin> set (escapeHtml s)"
  using entity_safe by (fastforce simp: escapeHtml_entities)

section \<open>The contact list\<close>

lemma js_includes_iff: "js_includes s q \<longleftrightarrow> contains s q"
proof (induction s)
  case Nil
  show ?case by (auto simp: contains_def)
next
  case (Cons x xs)
  have pre: "take (length q) (x # xs) = q \<longleftrightarrow> (\<exists>v. x # xs = q @ v)"
    by (metis append_eq_conv_conj append_take_drop_id)
  show ?case
  proof
    assume "js_includes (x # xs) q"
    then consider "take (length q) (x # xs) = q" | "js_includes xs q" by auto
    then show "contains (x # xs) q"
    proof cases
      case 1
      with pre obtain v where "x # xs = [] @ q @ v" by auto
      then show ?thesis unfolding contains_def by blast
    next
      case 2
      with Cons.IH obtain u v where "xs = u @ q @ v" by (auto simp: contains_def)
      then have "x # xs = (x # u) @ q @ v" by simp
      then show ?thesis unfolding contains_def by blast
    qed
  next
    assume "contains (x # xs) q"
    then obtain u v where uv: "x # xs = u @ q @ v" by (auto simp: contains_def)
    show "js_includes (x # xs) q"
    proof (cases u)
      case Nil
      with uv have "\<exists>v. x # xs = q @ v" by auto
      with pre show ?thesis by simp
    next
      case (Cons y u')
      with uv have "xs = u' @ q @ v" by simp
      then have "contains xs q" unfolding contains_def by blast
      with Cons.IH show ?thesis by simp
    qed
  qed
qed

lemma matches_query_kept:
  "matches_query e (toLowerCase e query) c \<longleftrightarrow> kept e query c"
  by (simp add: matches_query_def kept_def js_includes_iff list_ex_iff Let_def)

lemma set_insert_by: "set (insert_by cmp x ys) = insert x (set ys)"
  by (induction ys) auto

lemma mset_insert_by: "mset (insert_by cmp x ys) = add_mset x (mset ys)"
  by (induction ys) auto

lemma mset_js_sort: "mset (js_sort cmp xs) = mset xs"
  by (induction xs) (simp_all add: js_sort_def mset_insert_by)

lemma set_js_sort: "set (js_sort cmp xs) = set xs"
  by (metis mset_js_sort set_mset_mset)

lemma sorted_insert_by:
  assumes total: "\<forall>a \<in> S. \<forall>b \<in> S. cmp a b \<le> 0 \<or> cmp b a \<le> 0"
    and trans: "\<forall>a \<in> S. \<forall>b \<in> S. \<forall>c \<in> S. cmp a b \<le> 0 \<and> cmp b c \<le> 0 \<longrightarrow> cmp a c \<le> 0"
    and x: "x \<in> S"
  shows "set ys \<subseteq> S \<Longrightarrow> sorted_wrt (\<lambda>a b. cmp a b \<le> 0) ys \<Longrightarrow>
         sorted_wrt (\<lambda>a b. cmp a b \<le> 0) (insert_by cmp x ys)"
proof (induction ys)
  case Nil
  show ?case by simp
next
  case (Cons y ys)
  from Cons.prems have y: "y \<in> S" and ys: "set ys \<subseteq> S"
    and below: "\<forall>z \<in> set ys. cmp y z \<le> 0" and sorted: "sorted_wrt (\<lambda>a b. cmp a b \<le> 0) ys"
    by simp_all
  show ?case
  proof (cases "cmp x y \<le> 0")
    case True
    have "cmp x z \<le> 0" if "z \<in> set ys" for z
    proof -
      from that below have "cmp y z \<le> 0" by simp
      moreover from that ys have "z \<in> S" by blast
      ultimately show ?thesis using trans x y True by blast
    qed
    with True below sorted show ?thesis by simp
  next
    case False
    with total x y have yx: "cmp y x \<le> 0" by blast
    have "sorted_wrt (\<lambda>a b. cmp a b \<le> 0) (insert_by cmp x ys)"
      using Cons.IH [OF ys sorted] .
    moreover have "\<forall>z \<in> set (insert_by cmp x ys). cmp y z \<le> 0"
      using yx below by (simp add: set_insert_by)
    ultimately show ?thesis using False by simp
  qed
qed

lemma sorted_js_sort:
  assumes total: "\<forall>a \<in> S. \<forall>b \<in> S. cmp a b \<le> 0 \<or> cmp b a \<le> 0"
    and trans: "\<forall>a \<in> S. \<forall>b \<in> S. \<forall>c \<in> S. cmp a b \<le> 0 \<and> cmp b c \<le> 0 \<longrightarrow> cmp a c \<le> 0"
  shows "set xs \<subseteq> S \<Longrightarrow> sorted_wrt (\<lambda>a b. cmp a b \<le> 0) (js_sort cmp xs)"
proof (induction xs)
  case Nil
  show ?case by (simp add: js_sort_def)
next
  case (Cons x xs)
  have step: "js_sort cmp (x # xs) = insert_by cmp x (js_sort cmp xs)"
    by (simp add: js_sort_def)
  from Cons.prems have x: "x \<in> S" and xs: "set xs \<subseteq> S" by simp_all
  from xs have sub: "set (js_sort cmp xs) \<subseteq> S" by (simp add: set_js_sort)
  show ?case
    unfolding step using sorted_insert_by [OF total trans x sub Cons.IH [OF xs]] .
qed


lemma sortedContacts_result:
  assumes "r < next_ref h" and "sortedContacts e r query h = (r', h')"
  shows "deref h' r' = visible e query (deref h r)"
    and "\<forall>a < next_ref h. arrays h' a = arrays h a"
  using assms
  by (auto simp: sortedContacts_def filterContacts_def spread_def alloc_def sort_in_place_def
      deref_def truthy_str_def visible_def Let_def split: if_splits)

lemma renderContactsList_eq:
  "renderContactsList e st = st\<lparr>contactsList := visible e (searchQuery st) (contacts st)\<rparr>"
proof -
  let ?h = "\<lparr>arrays = [0 \<mapsto> contacts st], next_ref = 1\<rparr>"
  obtain r' h' where res: "sortedContacts e 0 (searchQuery st) ?h = (r', h')"
    by (cases "sortedContacts e 0 (searchQuery st) ?h") auto
  have "0 < next_ref ?h" by simp
  from sortedContacts_result [OF this res]
  have "deref h' r' = visible e (searchQuery st) (contacts st)" and "deref h' 0 = contacts st"
    by (simp_all add: deref_def)
  with res show ?thesis by (simp add: renderContactsList_def)
qed

lemma mset_visible:
  "mset (visible e query cs) = mset (if query = [] then cs else filter (kept e query) cs)"
  by (simp add: visible_def mset_js_sort matches_query_kept)

lemma sorted_visible:
  assumes "consistent_on cs (by_lastName e)"
  shows "sorted_wrt (by_lastName e) (visible e query cs)"
proof -
  let ?cmp = "\<lambda>a b. localeCompare e (lastName a) (lastName b)"
  have le: "by_lastName e = (\<lambda>a b. ?cmp a b \<le> 0)" by (simp add: by_lastName_def fun_eq_iff)
  from assms have total: "\<forall>a \<in> set cs. \<forall>b \<in> set cs. ?cmp a b \<le> 0 \<or> ?cmp b a \<le> 0"
    and trans: "\<forall>a \<in> set cs. \<forall>b \<in> set cs. \<forall>c \<in> set cs.
                  ?cmp a b \<le> 0 \<and> ?cmp b c \<le> 0 \<longrightarrow> ?cmp a c \<le> 0"
    unfolding consistent_on_def le by blast+
  have "set (if query = [] then cs else filter (matches_query e (toLowerCase e query)) cs) \<subseteq> set cs"
    by auto
  from sorted_js_sort [of "set cs" ?cmp, OF total trans this]
  show ?thesis unfolding le visible_def .
qed

lemmas search_eval =
  visible_def js_sort_def matches_query_def ascii_env_def ascii_lower_def str_def zed_def
  adams_def

text \<open>
  C5. The list shown for a query holds exactly the contacts whose lowercased
  \<open>firstName lastName\<close> contains the lowercased query, or one of whose lowercased
  emails does (all contacts when the query is empty); it is sorted by last name with
  the comparison of the locale, provided that comparison is consistent on the contacts;
  and the array of contacts is not changed, in the store and in the state. With last
  names \<open>Zed\<close> and \<open>Adams\<close> the empty query shows Adams then Zed, and the query
  \<open>zed\<close> shows Zed only.
\<close>

theorem visible_contacts:
  assumes "r < next_ref h" and "sortedContacts e r query h = (r', h')"
    and "consistent_on (deref h r) (by_lastName e)"
  shows "deref h' r = deref h r \<and>
    mset (deref h' r') = mset (if query = [] then deref h r else filter (kept e query) (deref h r)) \<and>
    sorted_wrt (by_lastName e) (deref h' r') \<and>
    contacts (renderContactsList e st) = contacts st \<and>
    contactsList (renderContactsList ascii_env (initial\<lparr>contacts := [zed, adams]\<rparr>)) = [adams, zed] \<and>
    contactsList (renderContactsList ascii_env
      (initial\<lparr>contacts := [zed, adams], searchQuery := str ''zed''\<rparr>)) = [zed]"
proof -
  from sortedContacts_result [OF assms(1,2)] assms(1)
  have res: "deref h' r' = visible e query (deref h r)" and same: "deref h' r = deref h r"
    by (simp_all add: deref_def)
  have ex1: "contactsList (renderContactsList ascii_env (initial\<lparr>contacts := [zed, adams]\<rparr>)) = [adams, zed]"
    by (simp add: renderContactsList_eq initial_def) (simp add: search_eval)
  have ex2: "contactsList (renderContactsList ascii_env
      (initial\<lparr>contacts := [zed, adams], searchQuery := str ''zed''\<rparr>)) = [zed]"
    by (simp add: renderContactsList_eq initial_def) (simp add: search_eval)
  show ?thesis
    using same ex1 ex2 sorted_visible [OF assms(3)]
    by (simp add: res mset_visible renderContactsList_eq)
qed


theorem visible_contacts_witness:
  "0 < next_ref \<lparr>arrays = [0 \<mapsto> [zed, adams]], next_ref = 1\<rparr> \<and>
   consistent_on (deref \<lparr>arrays = [0 \<mapsto> [zed, adams]], next_ref = 1\<rparr> 0) (by_lastName ascii_env) \<and>
   deref (snd (sortedContacts ascii_env 0 [] \<lparr>arrays = [0 \<mapsto> [zed, adams]], next_ref = 1\<rparr>)) 0
     = [zed, adams] \<and>
   sorted_wrt (by_lastName ascii_env)
     (deref (snd (sortedContacts ascii_env 0 [] \<lparr>arrays = [0 \<mapsto> [zed, adams]], next_ref = 1\<rparr>))
            (fst (sortedContacts ascii_env 0 [] \<lparr>arrays = [0 \<mapsto> [zed, adams]], next_ref = 1\<rparr>)))"
proof -
  let ?h = "\<lparr>arrays = [0 \<mapsto> [zed, adams]], next_ref = 1\<rparr>"
  have a: "0 < next_ref ?h" by simp
  have b: "sortedContacts ascii_env 0 [] ?h =
             (fst (sortedContacts ascii_env 0 [] ?h), snd (sortedContacts ascii_env 0 [] ?h))"
    by simp
  have c: "consistent_on (deref ?h 0) (by_lastName ascii_env)"
    by (simp add: consistent_on_def by_lastName_def deref_def search_eval)
  have d: "deref ?h 0 = [zed, adams]" by (simp add: deref_def)
  from visible_contacts [OF a b c] a c d show ?thesis by simp
qed

section \<open>Serialisation\<close>

lemma hex_value_digit: "k < 16 \<Longrightarrow> hex_value (hex_digit k) = k"
  by (auto simp: hex_value_def hex_digit_def unat_of_nat Let_def)

lemma unat_lt: "unat (c :: cu) < 65536"
  using unsigned_less [of c, where ?'a = nat] by simp

lemma hex_digits_nat:
  fixes n :: nat
  shows "4096 * (n div 4096) + 256 * (n div 256 mod 16) + 16 * (n div 16 mod 16) + n mod 16 = n"
proof -
  define q1 r0 q2 r1 q3 r2
    where "q1 = n div 16" and "r0 = n mod 16" and "q2 = q1 div 16" and "r1 = q1 mod 16"
      and "q3 = q2 div 16" and "r2 = q2 mod 16"
  have a: "n = 16 * q1 + r0" by (simp add: q1_def r0_def)
  have b: "q1 = 16 * q2 + r1" by (simp add: q2_def r1_def)
  have c: "q2 = 16 * q3 + r2" by (simp add: q3_def r2_def)
  have d: "n div 256 = q2" "n div 4096 = q3"
    by (simp_all add: q1_def q2_def q3_def div_mult2_eq)
  have "4096 * q3 + 256 * r2 + 16 * r1 + r0 = n"
    by (subst a, subst b, subst c) simp
  then show ?thesis by (simp only: d q1_def [symmetric] r0_def [symmetric] r1_def [symmetric] r2_def [symmetric])
qed

lemma hex_roundtrip:
  "(of_nat (4096 * hex_value (hex_digit (unat c div 4096)) +
            256 * hex_value (hex_digit (unat c div 256 mod 16)) +
            16 * hex_value (hex_digit (unat c div 16 mod 16)) +
            hex_value (hex_digit (unat c mod 16))) :: cu) = c"
proof -
  have "unat c div 4096 < 16" using unat_lt [of c] by simp
  then have "4096 * hex_value (hex_digit (unat c div 4096)) +
            256 * hex_value (hex_digit (unat c div 256 mod 16)) +
            16 * hex_value (hex_digit (unat c div 16 mod 16)) +
            hex_value (hex_digit (unat c mod 16)) = unat c"
    by (simp only: hex_value_digit hex_digits_nat mod_less_divisor zero_less_numeral)
  then have "(of_nat (4096 * hex_value (hex_digit (unat c div 4096)) +
            256 * hex_value (hex_digit (unat c div 256 mod 16)) +
            16 * hex_value (hex_digit (unat c div 16 mod 16)) +
            hex_value (hex_digit (unat c mod 16))) :: cu) = of_nat (unat c)"
    by (rule arg_cong)
  then show ?thesis by (simp only: of_nat_unat ucast_id)
qed

lemma hex_roundtrip_sum:
  "4096 * of_nat (hex_value (hex_digit (unat c div 4096))) +
   256 * of_nat (hex_value (hex_digit (unat c div 256 mod 16))) +
   16 * of_nat (hex_value (hex_digit (unat c div 16 mod 16))) +
   of_nat (hex_value (hex_digit (unat c mod 16))) = (c :: cu)"
  by (rule trans [OF _ hex_roundtrip]) simp

lemma unescape_unicode: "unescape (unicode_escape c @ r) = (c, r)"
  by (simp add: unescape_def unicode_escape_def hex_roundtrip_sum Let_def)

lemma lead_trail_plain:
  "is_lead c \<Longrightarrow> c \<noteq> 0x5C \<and> c \<noteq> 0x22"
  "is_trail c \<Longrightarrow> c \<noteq> 0x5C \<and> c \<noteq> 0x22"
  by (auto simp: is_lead_def is_trail_def)

lemma unescape_plain: "c \<noteq> 0x5C \<Longrightarrow> unescape (c # r) = (c, r)"
  by (simp add: unescape_def split: list.splits)

lemma unescape_letter: "l \<noteq> 0x75 \<Longrightarrow> unescape (0x5C # l # r) = (letter_unit l, r)"
  by (simp add: unescape_def split: list.splits)

lemma unescape_escape_unit: "unescape (escape_unit c @ r) = (c, r)"
  by (simp add: escape_unit_def unescape_unicode unescape_plain unescape_letter letter_unit_def)

lemma escape_unit_not_Nil: "escape_unit c \<noteq> []"
  by (simp add: escape_unit_def unicode_escape_def Let_def)

lemma hd_escape_unit: "hd (escape_unit c) \<noteq> 0x22"
  by (simp add: escape_unit_def unicode_escape_def Let_def)

lemma unquote_escape_unit:
  "unquote (Suc n) (escape_unit c @ r) = (let (cs, r') = unquote n r in (c # cs, r'))"
proof -
  obtain x xs where e: "escape_unit c = x # xs" using escape_unit_not_Nil by (cases "escape_unit c") auto
  with hd_escape_unit [of c] have "x \<noteq> 0x22" by simp
  with e unescape_escape_unit [of c r] show ?thesis by simp
qed

lemma unquote_quote_units:
  "length s \<le> n \<Longrightarrow> unquote (Suc n) (quote_units s @ 0x22 # r) = (s, r)"
proof (induction s arbitrary: n rule: quote_units.induct)
  case 1
  show ?case by simp
next
  case (2 c)
  then obtain m where "n = Suc m" by (cases n) auto
  then show ?case by (simp add: unquote_escape_unit)
next
  case (3 c d cs)
  from "3.prems" obtain m where n: "n = Suc m" and m: "length (d # cs) \<le> m" by (cases n) auto
  show ?case
  proof (cases "is_lead c \<and> is_trail d")
    case True
    from m obtain k where k: "m = Suc k" and "length cs \<le> k" by (cases m) auto
    with "3.IH"(1) [OF True] have "unquote (Suc k) (quote_units cs @ 0x22 # r) = (cs, r)" by simp
    moreover from True have "quote_units (c # d # cs) = c # d # quote_units cs" by simp
    ultimately show ?thesis using True n k
      by (simp add: lead_trail_plain unescape_plain del: quote_units.simps)
  next
    case False
    then have "quote_units (c # d # cs) = escape_unit c @ quote_units (d # cs)" by auto
    with "3.IH"(2) [OF False m] n show ?thesis
      by (simp add: unquote_escape_unit del: quote_units.simps)
  qed
qed

lemma length_escape_unit: "1 \<le> length (escape_unit c)"
  using escape_unit_not_Nil [of c] by (cases "escape_unit c") auto

lemma length_quote_units: "length s \<le> length (quote_units s)"
proof (induction s rule: quote_units.induct)
  case 1
  show ?case by simp
next
  case (2 c)
  show ?case using length_escape_unit [of c] by simp
next
  case (3 c d cs)
  then show ?case using length_escape_unit [of c] by (auto simp del: quote_units.simps(2))
qed

lemma unquote_QuoteJSONString:
  "QuoteJSONString s @ r = 0x22 # t \<Longrightarrow> unquote (length t) t = (s, r)"
proof -
  assume "QuoteJSONString s @ r = 0x22 # t"
  then have t: "t = quote_units s @ 0x22 # r" by (simp add: QuoteJSONString_def)
  have "length s \<le> length (quote_units s) + length r" using length_quote_units [of s] by simp
  from unquote_quote_units [OF this, of r] show ?thesis by (simp add: t)
qed

lemma elements_Quote:
  "elements (Suc m) (QuoteJSONString x @ rest) =
     x # (case rest of y # r' \<Rightarrow> if y = 0x2C then elements m r' else [] | [] \<Rightarrow> [])"
proof -
  have "QuoteJSONString x @ rest = 0x22 # (quote_units x @ 0x22 # rest)"
    by (simp add: QuoteJSONString_def)
  from unquote_QuoteJSONString [OF this] this show ?thesis by simp
qed

lemma elements_join:
  "length xs \<le> k \<Longrightarrow> elements k (join_commas (map QuoteJSONString xs) @ 0x5D # r) = xs"
proof (induction xs arbitrary: k rule: join_commas.induct)
  case 1
  show ?case by (cases k) simp_all
next
  case (2 x)
  then obtain m where k: "k = Suc m" by (cases k) auto
  show ?case by (simp add: k elements_Quote)
next
  case (3 x y ys)
  from "3.prems" obtain m where k: "k = Suc m" and m: "length (y # ys) \<le> m" by (cases k) auto
  from "3.IH" [OF m] show ?case by (simp add: k elements_Quote)
qed

lemma JSON_parse_stringify: "JSON_parse (JSON_stringify xs) = xs"
proof -
  have "length xs \<le> length (join_commas (map QuoteJSONString xs) @ [0x5D])"
  proof (induction xs rule: join_commas.induct)
    case (3 x y ys)
    then show ?case by simp
  qed (simp_all add: QuoteJSONString_def)
  from elements_join [OF this, of "[]"] show ?thesis
    by (simp add: JSON_parse_def JSON_stringify_def)
qed

text \<open>Different arrays of strings have different serialisations.\<close>

lemma JSON_stringify_inj: "JSON_stringify xs = JSON_stringify ys \<longleftrightarrow> xs = ys"
  by (metis JSON_parse_stringify)

section \<open>The change detector\<close>

lemmas handler_defs =
  DOMContentLoaded_def contactItem_click_def addContactBtn_click_def addEmailBtn_click_def
  emailInput_input_def emailInput_Enter_def emailDelete_click_def firstNameInput_input_def
  lastNameInput_input_def searchInput_input_def saveBtn_click_def deleteBtn_click_def
  cancelBtn_click_def

lemmas script_defs =
  fetchContacts_def renderEmailList_def addNewEmailInput_def checkForChanges_def
  hasUnsavedValidEmail_def selectContact_def clearForm_def getFormData_def saveContact_def
  deleteContact_def save_failed_def delete_failed_def log_error_def alert_def truthy_id_def
  truthy_num_def truthy_str_def splice1_def commit_unsaved_email_def

lemmas run_eval =
  handler_defs script_defs initial_def hasChanges_def pending_text_def renderContactsList_eq
  visible_def js_sort_def text_value_def trim_def validator_eval Let_def JSON_stringify_inj

lemma trim_Nil: "trim [] = []"
  by (simp add: trim_def)

lemma hasChanges_new:
  "originalContact st = None \<Longrightarrow>
     hasChanges st \<longleftrightarrow>
       trim (firstNameInput st) \<noteq> [] \<or> trim (lastNameInput st) \<noteq> [] \<or>
       currentEmailList st \<noteq> [] \<or>
       (trim (pending_text st) \<noteq> [] \<and> isValidEmail (trim (pending_text st)))"
  by (cases "emailInput st")
     (auto simp: hasChanges_def checkForChanges_def hasUnsavedValidEmail_def pending_text_def
        truthy_str_def trim_Nil Let_def JSON_stringify_inj)

lemma hasChanges_existing:
  "originalContact st = Some orig \<Longrightarrow>
     hasChanges st \<longleftrightarrow>
       trim (firstNameInput st) \<noteq> firstName orig \<or> trim (lastNameInput st) \<noteq> lastName orig \<or>
       map email (currentEmailList st) \<noteq> map email (emails orig) \<or>
       (trim (pending_text st) \<noteq> [] \<and> isValidEmail (trim (pending_text st)))"
  by (cases "emailInput st")
     (auto simp: hasChanges_def checkForChanges_def hasUnsavedValidEmail_def pending_text_def
        truthy_str_def trim_Nil Let_def JSON_stringify_inj)

text \<open>
  C1, as the code has it. For a new contact (no snapshot) the save button is enabled
  iff the trimmed first name is not empty, or the trimmed last name is not empty, or
  the committed email list is not empty, or the trimmed text of the email field is not
  empty and valid. For an existing contact it is enabled iff the trimmed first name
  differs from the snapshot's, or the trimmed last name does, or the list of committed
  email strings differs from the snapshot's list, or the trimmed text of the email
  field is not empty and valid. When every field holds the snapshot's value again, no
  text is pending, and the names of the snapshot have no whitespace at either end, the
  button is disabled.
\<close>

theorem hasChanges_iff:
  "(originalContact st = None \<longrightarrow>
      (hasChanges st \<longleftrightarrow>
         trim (firstNameInput st) \<noteq> [] \<or> trim (lastNameInput st) \<noteq> [] \<or>
         currentEmailList st \<noteq> [] \<or>
         (trim (pending_text st) \<noteq> [] \<and> isValidEmail (trim (pending_text st))))) \<and>
   (originalContact st = Some orig \<longrightarrow>
      (hasChanges st \<longleftrightarrow>
         trim (firstNameInput st) \<noteq> firstName orig \<or>
         trim (lastNameInput st) \<noteq> lastName orig \<or>
         map email (currentEmailList st) \<noteq> map email (emails orig) \<or>
         (trim (pending_text st) \<noteq> [] \<and> isValidEmail (trim (pending_text st))))) \<and>
   (originalContact st = Some orig \<and>
    firstNameInput st = firstName orig \<and> lastNameInput st = lastName orig \<and>
    map email (currentEmailList st) = map email (emails orig) \<and> pending_text st = [] \<and>
    trim (firstName orig) = firstName orig \<and> trim (lastName orig) = lastName orig \<longrightarrow>
      \<not> hasChanges st)"
  using hasChanges_new [of st] hasChanges_existing [of st orig] by (auto simp: trim_Nil)

theorem hasChanges_iff_witness:
  "(originalContact new_untouched = None \<and> \<not> hasChanges new_untouched) \<and>
   (originalContact new_named = None \<and> hasChanges new_named) \<and>
   (originalContact ann_edited = Some \<lparr>firstName = str ''Ann'', lastName = str ''Lee'',
       emails = [\<lparr>entry_id = 1, email = str ''ann@x.com''\<rparr>]\<rparr> \<and> hasChanges ann_edited) \<and>
   (originalContact ann_reverted = Some \<lparr>firstName = str ''Ann'', lastName = str ''Lee'',
       emails = [\<lparr>entry_id = 1, email = str ''ann@x.com''\<rparr>]\<rparr> \<and>
    firstNameInput ann_reverted = str ''Ann'' \<and> lastNameInput ann_reverted = str ''Lee'' \<and>
    map email (currentEmailList ann_reverted) = [str ''ann@x.com''] \<and>
    pending_text ann_reverted = [] \<and> trim (str ''Ann'') = str ''Ann'' \<and>
    trim (str ''Lee'') = str ''Lee'' \<and> \<not> hasChanges ann_reverted)"
proof -
  let ?orig = "\<lparr>firstName = str ''Ann'', lastName = str ''Lee'',
       emails = [\<lparr>entry_id = 1, email = str ''ann@x.com''\<rparr>]\<rparr>"
  have a: "originalContact new_untouched = None" "firstNameInput new_untouched = []"
    "lastNameInput new_untouched = []" "currentEmailList new_untouched = []"
    "pending_text new_untouched = []"
    by (simp_all add: new_untouched_def handler_defs script_defs initial_def pending_text_def)
  have b: "originalContact new_named = None" "firstNameInput new_named = str ''X''"
    by (simp_all add: new_named_def handler_defs script_defs initial_def)
  have sel: "originalContact ann_selected = Some ?orig"
    "firstNameInput ann_selected = str ''Ann''" "lastNameInput ann_selected = str ''Lee''"
    "currentEmailList ann_selected = [\<lparr>entry_id = 1, email = str ''ann@x.com''\<rparr>]"
    "emailInput ann_selected = None"
    by (simp_all add: ann_selected_def ann_def handler_defs script_defs initial_def
        renderContactsList_eq visible_def js_sort_def text_value_def str_def)
  have c: "originalContact ann_edited = Some ?orig" "firstNameInput ann_edited = str ''Anna''"
    using sel by (simp_all add: ann_edited_def handler_defs script_defs)
  have d: "originalContact ann_reverted = Some ?orig"
    "firstNameInput ann_reverted = str ''Ann''" "lastNameInput ann_reverted = str ''Lee''"
    "map email (currentEmailList ann_reverted) = [str ''ann@x.com'']"
    "pending_text ann_reverted = []"
    using sel
    by (simp_all add: ann_reverted_def ann_edited_def handler_defs script_defs pending_text_def)
  have t: "trim (str ''Ann'') = str ''Ann''" "trim (str ''Lee'') = str ''Lee''"
    "trim (str ''X'') = str ''X''" "trim (str ''Anna'') = str ''Anna''"
    "str ''Anna'' \<noteq> str ''Ann''" "str ''X'' \<noteq> []"
    by (simp_all add: trim_def str_def is_space_def)
  show ?thesis
    using hasChanges_iff [of new_untouched] hasChanges_iff [of new_named]
      hasChanges_iff [of ann_edited ?orig] hasChanges_iff [of ann_reverted ?orig] a b c d t
    by (simp add: trim_Nil)
qed

text \<open>
  The claim as it is written fails twice. With \<open>a@b.co\<close> and a no-break space in the
  email field of an empty new contact, the text of the field is not valid, yet the
  button is enabled, because the code validates the trimmed text. And when the
  snapshot's first name begins with a space, the button is enabled although every
  field holds the snapshot's value, because the code compares the trimmed field with
  the untrimmed snapshot.
\<close>

theorem hasChanges_counterexample:
  "(originalContact nbsp_pending = None \<and> hasChanges nbsp_pending \<and>
    \<not> (trim (firstNameInput nbsp_pending) \<noteq> [] \<or> trim (lastNameInput nbsp_pending) \<noteq> [] \<or>
       currentEmailList nbsp_pending \<noteq> [] \<or>
       (pending_text nbsp_pending \<noteq> [] \<and> isValidEmail (pending_text nbsp_pending)))) \<and>
   (originalContact padded_selected =
      Some \<lparr>firstName = str '' Ann'', lastName = str ''Lee'', emails = []\<rparr> \<and>
    firstNameInput padded_selected = str '' Ann'' \<and> lastNameInput padded_selected = str ''Lee'' \<and>
    currentEmailList padded_selected = [] \<and> pending_text padded_selected = [] \<and>
    hasChanges padded_selected)"
  by (simp add: nbsp_pending_def padded_selected_def padded_def run_eval)

section \<open>Saving\<close>

lemma dropWhile_id: "xs \<noteq> [] \<Longrightarrow> \<not> P (hd xs) \<Longrightarrow> dropWhile P xs = xs"
  by (cases xs) auto

lemma plain_not_space: "plain c \<Longrightarrow> \<not> is_space c"
  by (simp add: plain_def)

lemma trim_valid: "isValidEmail v \<Longrightarrow> trim v = v"
proof -
  assume "isValidEmail v"
  then obtain a b c where v: "v = a @ [0x40] @ b @ [0x2E] @ c" and ne: "a \<noteq> []" "c \<noteq> []"
    and pl: "\<forall>x \<in> set a. plain x" "\<forall>x \<in> set c. plain x"
    unfolding isValidEmail_iff by blast
  from ne pl have "\<not> is_space (hd a)" "\<not> is_space (last c)"
    by (simp_all add: plain_not_space)
  with v ne have "\<not> is_space (hd v)" "\<not> is_space (hd (rev v))" "v \<noteq> []"
    by (simp_all add: hd_rev)
  then show "trim v = v" by (simp add: trim_def dropWhile_id)
qed

lemma commit_list:
  "currentEmailList (commit_unsaved_email now st) =
     (if trim (pending_text st) \<noteq> [] \<and> isValidEmail (trim (pending_text st))
      then currentEmailList st @ [\<lparr>entry_id = now, email = trim (pending_text st)\<rparr>]
      else currentEmailList st)"
  by (cases "emailInput st")
     (simp_all add: commit_unsaved_email_def pending_text_def truthy_str_def trim_Nil Let_def)

lemma commit_other:
  "firstNameInput (commit_unsaved_email now st) = firstNameInput st"
  "lastNameInput (commit_unsaved_email now st) = lastNameInput st"
  "selectedContactId (commit_unsaved_email now st) = selectedContactId st"
  "requests (commit_unsaved_email now st) = requests st"
  by (cases "emailInput st"; simp add: commit_unsaved_email_def Let_def)+

lemma requests_renderContactsList: "requests (renderContactsList e st) = requests st"
  by (simp add: renderContactsList_eq)

lemma requests_fetchContacts: "requests (fetchContacts e r st) = requests st @ [GET]"
  by (cases r; simp add: fetchContacts_def log_error_def renderContactsList_eq Let_def split: parsed.splits)

lemma requests_selectContact: "requests (selectContact e c st) = requests st"
  by (simp add: selectContact_def renderContactsList_eq renderEmailList_def addNewEmailInput_def
      checkForChanges_def Let_def split: option.splits)

lemma save_request_eq:
  "(if truthy_id (data_id d) then PUT (the (data_id d)) d else POST d) = save_request d"
  by (cases "data_id d") (simp_all add: save_request_def truthy_id_def)

lemma requests_saveContact:
  "take (Suc (length (requests st))) (requests (saveContact e d response refetch st)) =
     requests st @ [save_request d]"
  by (cases response)
     (simp_all add: saveContact_def save_request_eq save_failed_def alert_def log_error_def
        requests_selectContact requests_fetchContacts Let_def split: parsed.splits)

lemma handle_email_list:
  "case ev of
     EmailEnter now \<Rightarrow> True
   | SaveClick now response refetch \<Rightarrow> True
   | ContactItemClick i \<Rightarrow>
       currentEmailList (handle e ev st) = currentEmailList st \<or>
       currentEmailList (handle e ev st) = emails (contactsList st ! i)
   | _ \<Rightarrow> set (currentEmailList (handle e ev st)) \<subseteq> set (currentEmailList st)"
proof (cases ev)
  case (Loaded r)
  then show ?thesis
    by (cases r) (simp_all add: handler_defs script_defs renderContactsList_eq Let_def split: parsed.splits)
next
  case (DeleteClick c r f)
  then show ?thesis
    by (cases r; cases f)
       (simp_all add: handler_defs script_defs renderContactsList_eq Let_def split: parsed.splits)
next
  case (EmailDeleteClick i)
  then show ?thesis
    by (auto simp: handler_defs script_defs Let_def split: option.splits dest: in_set_takeD in_set_dropD)
qed (simp_all add: handler_defs script_defs renderContactsList_eq Let_def split: option.splits)


text \<open>
  What the click on the save button does in every state. It first appends the trimmed
  text of the email field to the committed list when that text is not empty and valid
  (so a pending text that is itself valid is appended as it is), and changes nothing
  else before the request. The data sent are the trimmed names, the committed list
  after that step, and the id of the selected contact when that id is truthy; with the
  id the request is a PUT for it, without it a POST. No other listener commits the text
  of the email field: apart from the Enter key in that field and the selection of a
  contact, which replaces the list by the contact's, a listener leaves in the list only
  entries that were in it.
\<close>

lemma save_click:
  "currentEmailList (commit_unsaved_email now st) =
     (if trim (pending_text st) \<noteq> [] \<and> isValidEmail (trim (pending_text st))
      then currentEmailList st @ [\<lparr>entry_id = now, email = trim (pending_text st)\<rparr>]
      else currentEmailList st) \<and>
   (pending_text st \<noteq> [] \<and> isValidEmail (pending_text st) \<longrightarrow>
      currentEmailList (commit_unsaved_email now st) =
        currentEmailList st @ [\<lparr>entry_id = now, email = pending_text st\<rparr>]) \<and>
   getFormData (commit_unsaved_email now st) =
     \<lparr>firstName = trim (firstNameInput st), lastName = trim (lastNameInput st),
      emails = currentEmailList (commit_unsaved_email now st),
      data_id = (if truthy_id (selectedContactId st) then selectedContactId st else None)\<rparr> \<and>
   take (Suc (length (requests st))) (requests (saveBtn_click e now response refetch st)) =
     requests st @ [save_request (getFormData (commit_unsaved_email now st))] \<and>
   (truthy_id (selectedContactId st) \<longrightarrow>
      save_request (getFormData (commit_unsaved_email now st)) =
        PUT (the (selectedContactId st)) (getFormData (commit_unsaved_email now st))) \<and>
   (\<not> truthy_id (selectedContactId st) \<longrightarrow>
      save_request (getFormData (commit_unsaved_email now st)) =
        POST (getFormData (commit_unsaved_email now st))) \<and>
   (truthy_id (selectedContactId st) \<longleftrightarrow> (\<exists>i. selectedContactId st = Some i \<and> i \<noteq> 0)) \<and>
   (case ev of
      EmailEnter now' \<Rightarrow> True
    | SaveClick now' response' refetch' \<Rightarrow> True
    | ContactItemClick i \<Rightarrow>
        currentEmailList (handle e ev st) = currentEmailList st \<or>
        currentEmailList (handle e ev st) = emails (contactsList st ! i)
    | _ \<Rightarrow> set (currentEmailList (handle e ev st)) \<subseteq> set (currentEmailList st))"
proof -
  have valid: "pending_text st \<noteq> [] \<and> isValidEmail (pending_text st) \<longrightarrow>
      currentEmailList (commit_unsaved_email now st) =
        currentEmailList st @ [\<lparr>entry_id = now, email = pending_text st\<rparr>]"
    by (simp add: commit_list trim_valid)
  have data: "getFormData (commit_unsaved_email now st) =
     \<lparr>firstName = trim (firstNameInput st), lastName = trim (lastNameInput st),
      emails = currentEmailList (commit_unsaved_email now st),
      data_id = (if truthy_id (selectedContactId st) then selectedContactId st else None)\<rparr>"
    by (simp add: getFormData_def commit_other)
  have sent: "take (Suc (length (requests st))) (requests (saveBtn_click e now response refetch st)) =
     requests st @ [save_request (getFormData (commit_unsaved_email now st))]"
    using requests_saveContact [of "commit_unsaved_email now st" e
        "getFormData (commit_unsaved_email now st)" response refetch]
    by (simp add: saveBtn_click_def commit_other Let_def)
  have put: "truthy_id (selectedContactId st) \<longrightarrow>
      save_request (getFormData (commit_unsaved_email now st)) =
        PUT (the (selectedContactId st)) (getFormData (commit_unsaved_email now st))"
    by (cases "selectedContactId st")
       (simp_all add: save_request_def getFormData_def commit_other truthy_id_def)
  have post: "\<not> truthy_id (selectedContactId st) \<longrightarrow>
      save_request (getFormData (commit_unsaved_email now st)) =
        POST (getFormData (commit_unsaved_email now st))"
    by (simp add: save_request_def getFormData_def commit_other)
  have truthy: "truthy_id (selectedContactId st) \<longleftrightarrow> (\<exists>i. selectedContactId st = Some i \<and> i \<noteq> 0)"
    by (cases "selectedContactId st") (simp_all add: truthy_id_def truthy_num_def)
  show ?thesis
    using commit_list [of now st] valid data sent put post truthy
      handle_email_list [where ev = ev and e = e and st = st]
    by (simp only: simp_thms)
qed

lemma save_click_example:
  "(\<not> truthy_id (selectedContactId new_ann) \<and>
    pending_text new_ann \<noteq> [] \<and> isValidEmail (pending_text new_ann) \<and>
    take (Suc (length (requests new_ann)))
      (requests (saveBtn_click ascii_env 5 (SaveRejected []) (ListRejected []) new_ann)) =
      [POST \<lparr>firstName = str ''Ann'', lastName = str ''Lee'',
             emails = [\<lparr>entry_id = 5, email = str ''ann@x.com''\<rparr>], data_id = None\<rparr>]) \<and>
   (truthy_id (selectedContactId ann_pending) \<and>
    pending_text ann_pending \<noteq> [] \<and> isValidEmail (pending_text ann_pending) \<and>
    take (Suc (length (requests ann_pending)))
      (requests (saveBtn_click ascii_env 9 (SaveRejected []) (ListRejected []) ann_pending)) =
      [GET, PUT 7 \<lparr>firstName = str ''Anna'', lastName = str ''Lee'',
             emails = [\<lparr>entry_id = 1, email = str ''ann@x.com''\<rparr>,
                       \<lparr>entry_id = 9, email = str ''a2@x.com''\<rparr>], data_id = Some 7\<rparr>])"
proof -
  have a: "selectedContactId new_ann = None" "emailInput new_ann = Some (str ''ann@x.com'')"
    "firstNameInput new_ann = str ''Ann''" "lastNameInput new_ann = str ''Lee''"
    "currentEmailList new_ann = []" "requests new_ann = []"
    by (simp_all add: new_ann_def handler_defs script_defs initial_def)
  have b: "selectedContactId ann_pending = Some 7" "emailInput ann_pending = Some (str ''a2@x.com'')"
    "firstNameInput ann_pending = str ''Anna''" "lastNameInput ann_pending = str ''Lee''"
    "currentEmailList ann_pending = [\<lparr>entry_id = 1, email = str ''ann@x.com''\<rparr>]"
    "requests ann_pending = [GET]"
    by (simp_all add: ann_pending_def ann_edited_def ann_selected_def ann_def run_eval)
  have v: "isValidEmail (str ''ann@x.com'')" "isValidEmail (str ''a2@x.com'')"
    by (simp_all add: validator_eval)
  have t: "trim (str ''Ann'') = str ''Ann''" "trim (str ''Lee'') = str ''Lee''"
    "trim (str ''Anna'') = str ''Anna''" "str ''ann@x.com'' \<noteq> []" "str ''a2@x.com'' \<noteq> []"
    "trim (str ''ann@x.com'') = str ''ann@x.com''" "trim (str ''a2@x.com'') = str ''a2@x.com''"
    by (simp_all add: trim_def str_def is_space_def)
  show ?thesis
    using save_click [where now = 5 and st = new_ann and e = ascii_env
          and response = "SaveRejected []" and refetch = "ListRejected []" and ev = CancelClick]
      save_click [where now = 9 and st = ann_pending and e = ascii_env
          and response = "SaveRejected []" and refetch = "ListRejected []" and ev = CancelClick]
      a b v t
    by (auto simp: pending_text_def truthy_id_def truthy_num_def)
qed

text \<open>
  C2. The data sent must carry the id iff an existing contact is being edited, and an
  existing contact must be saved by a PUT for its id. The code tests the id by its
  truthiness and misses the contact whose id is 0. Such a contact, taken from the list
  of the server and selected, is an existing contact for the rest of the script: the
  selection and the snapshot are set and the delete button is shown. Yet the data of
  the form carry no id, the save is a POST, which creates a second contact, and the
  click on the delete button, confirmed, sends nothing and changes nothing.
\<close>

theorem save_click_id_zero:
  "selectedContactId zero_selected = Some 0 \<and>
   originalContact zero_selected =
     Some \<lparr>firstName = str ''Ann'', lastName = str ''Lee'', emails = []\<rparr> \<and>
   deleteBtnShown zero_selected \<and> \<not> formHidden zero_selected \<and>
   getFormData zero_selected =
     \<lparr>firstName = str ''Ann'', lastName = str ''Lee'', emails = [], data_id = None\<rparr> \<and>
   requests zero_saved =
     [GET, POST \<lparr>firstName = str ''Anna'', lastName = str ''Lee'', emails = [], data_id = None\<rparr>] \<and>
   deleteBtn_click ascii_env True DeleteOk (ListResponded True (Parsed [])) zero_selected =
     zero_selected"
proof -
  have "deleteBtn_click ascii_env True DeleteOk (ListResponded True (Parsed [])) zero_selected =
     zero_selected"
    by (simp add: zero_selected_def zero_def run_eval)
  moreover have "selectedContactId zero_selected = Some 0 \<and>
   originalContact zero_selected =
     Some \<lparr>firstName = str ''Ann'', lastName = str ''Lee'', emails = []\<rparr> \<and>
   deleteBtnShown zero_selected \<and> \<not> formHidden zero_selected \<and>
   getFormData zero_selected =
     \<lparr>firstName = str ''Ann'', lastName = str ''Lee'', emails = [], data_id = None\<rparr>"
    by (simp add: zero_selected_def zero_def run_eval)
  moreover have "requests zero_saved =
     [GET, POST \<lparr>firstName = str ''Anna'', lastName = str ''Lee'', emails = [], data_id = None\<rparr>]"
    by (simp add: zero_saved_def zero_def run_eval)
  ultimately show ?thesis by (simp only: simp_thms)
qed

section \<open>Adding and removing emails\<close>

lemma splice1_last: "splice1 (length xs) (xs @ [x]) = xs"
  by (simp add: splice1_def)

lemma splice1_beyond: "length xs \<le> index \<Longrightarrow> splice1 index xs = xs"
  by (simp add: splice1_def)

lemma list_emailDelete_click:
  "currentEmailList (emailDelete_click index st) = splice1 index (currentEmailList st)"
  by (simp add: emailDelete_click_def renderEmailList_def addNewEmailInput_def
      checkForChanges_def Let_def split: option.splits)

lemma rows_emailDelete_click:
  "emailRows (emailDelete_click index st) = map email (currentEmailList (emailDelete_click index st))"
  by (simp add: emailDelete_click_def renderEmailList_def addNewEmailInput_def
      checkForChanges_def Let_def split: option.splits)

lemma list_emailInput_Enter:
  "currentEmailList (emailInput_Enter now st) =
     (if trim (pending_text st) \<noteq> [] \<and> isValidEmail (trim (pending_text st))
      then currentEmailList st @ [\<lparr>entry_id = now, email = trim (pending_text st)\<rparr>]
      else currentEmailList st)"
  by (cases "emailInput st")
     (simp_all add: emailInput_Enter_def renderEmailList_def addNewEmailInput_def
        checkForChanges_def pending_text_def truthy_str_def trim_Nil Let_def
        split: option.splits)

lemma rows_emailInput_Enter:
  "trim (pending_text st) \<noteq> [] \<and> isValidEmail (trim (pending_text st)) \<Longrightarrow>
   emailRows (emailInput_Enter now st) = map email (currentEmailList (emailInput_Enter now st))"
  by (cases "emailInput st")
     (simp_all add: emailInput_Enter_def renderEmailList_def addNewEmailInput_def
        checkForChanges_def pending_text_def truthy_str_def trim_Nil Let_def
        split: option.splits)

lemma filter_take_distinct:
  "distinct (map f xs) \<Longrightarrow> i < length xs \<Longrightarrow>
     filter (\<lambda>x. f x \<noteq> f (xs ! i)) xs = take i xs @ drop (Suc i) xs"
proof (induction xs arbitrary: i)
  case Nil
  then show ?case by simp
next
  case (Cons x xs)
  show ?case
  proof (cases i)
    case 0
    from Cons.prems have "f x \<notin> f ` set xs" by simp
    then have "\<forall>y \<in> set xs. f y \<noteq> f x" by (metis imageI)
    then have "filter (\<lambda>y. f y \<noteq> f x) xs = xs" by (simp add: filter_id_conv)
    with 0 show ?thesis by simp
  next
    case (Suc j)
    with Cons.prems have j: "j < length xs" and d: "distinct (map f xs)"
      and "f x \<noteq> f (xs ! j)" by auto
    with Cons.IH [OF d j] Suc show ?thesis by simp
  qed
qed

text \<open>
  C3, as the code has it. Committing the text of the email field with the Enter key
  appends one entry and renders the rows again; the delete button of the new row, the
  last one, then restores the list as it was. The button of a row removes the entry at
  the index of that row: removal is positional and never looks at a local id. An index
  beyond the end removes nothing. When the local ids of the list are pairwise distinct,
  removing the entry at an index is the same as removing the entry that has its id.
\<close>

theorem email_add_remove:
  "(trim (pending_text st) \<noteq> [] \<and> isValidEmail (trim (pending_text st)) \<longrightarrow>
      currentEmailList (emailInput_Enter now st) =
        currentEmailList st @ [\<lparr>entry_id = now, email = trim (pending_text st)\<rparr>] \<and>
      emailRows (emailInput_Enter now st) = map email (currentEmailList (emailInput_Enter now st)) \<and>
      currentEmailList (emailDelete_click (length (currentEmailList st)) (emailInput_Enter now st)) =
        currentEmailList st) \<and>
   currentEmailList (emailDelete_click index st) =
     take index (currentEmailList st) @ drop (Suc index) (currentEmailList st) \<and>
   emailRows (emailDelete_click index st) = map email (currentEmailList (emailDelete_click index st)) \<and>
   (length (currentEmailList st) \<le> index \<longrightarrow>
      currentEmailList (emailDelete_click index st) = currentEmailList st) \<and>
   (index < length (currentEmailList st) \<and> distinct (map entry_id (currentEmailList st)) \<longrightarrow>
      currentEmailList (emailDelete_click index st) =
        removeEmail_by_id (entry_id (currentEmailList st ! index)) (currentEmailList st))"
proof -
  have "currentEmailList (emailDelete_click (length (currentEmailList st)) (emailInput_Enter now st)) =
        currentEmailList st"
    if "trim (pending_text st) \<noteq> [] \<and> isValidEmail (trim (pending_text st))"
    using that by (simp add: list_emailDelete_click list_emailInput_Enter splice1_last)
  moreover have "currentEmailList (emailDelete_click index st) =
        removeEmail_by_id (entry_id (currentEmailList st ! index)) (currentEmailList st)"
    if "index < length (currentEmailList st) \<and> distinct (map entry_id (currentEmailList st))"
    using that filter_take_distinct [of entry_id "currentEmailList st" index]
    by (simp add: list_emailDelete_click splice1_def removeEmail_by_id_def)
  ultimately show ?thesis
    using rows_emailInput_Enter [of st now] rows_emailDelete_click [of index st]
    by (simp add: list_emailDelete_click list_emailInput_Enter splice1_beyond)
       (simp add: splice1_def)
qed

theorem email_add_remove_witness:
  "trim (pending_text new_ann) \<noteq> [] \<and> isValidEmail (trim (pending_text new_ann)) \<and>
   currentEmailList (emailInput_Enter 5 new_ann) = [\<lparr>entry_id = 5, email = str ''ann@x.com''\<rparr>] \<and>
   currentEmailList (emailDelete_click 0 (emailInput_Enter 5 new_ann)) = [] \<and>
   (0::nat) < length (currentEmailList ann_selected) \<and>
   distinct (map entry_id (currentEmailList ann_selected)) \<and>
   length (currentEmailList ann_selected) \<le> 3 \<and>
   currentEmailList (emailDelete_click 3 ann_selected) = currentEmailList ann_selected \<and>
   currentEmailList (emailDelete_click 0 ann_selected) =
     removeEmail_by_id 1 (currentEmailList ann_selected)"
proof -
  have a: "emailInput new_ann = Some (str ''ann@x.com'')" "currentEmailList new_ann = []"
    by (simp_all add: new_ann_def handler_defs script_defs initial_def)
  have v: "isValidEmail (str ''ann@x.com'')" "trim (str ''ann@x.com'') = str ''ann@x.com''"
    "str ''ann@x.com'' \<noteq> []"
    by (simp_all add: validator_eval trim_def)
  have b: "currentEmailList ann_selected = [\<lparr>entry_id = 1, email = str ''ann@x.com''\<rparr>]"
    by (simp add: ann_selected_def ann_def run_eval)
  have p: "trim (pending_text new_ann) \<noteq> [] \<and> isValidEmail (trim (pending_text new_ann))"
    using a v by (simp add: pending_text_def)
  from email_add_remove [where st = new_ann and now = 5 and index = 0] p
  have A: "currentEmailList (emailInput_Enter 5 new_ann) =
             currentEmailList new_ann @ [\<lparr>entry_id = 5, email = trim (pending_text new_ann)\<rparr>]"
    "currentEmailList (emailDelete_click (length (currentEmailList new_ann)) (emailInput_Enter 5 new_ann)) =
       currentEmailList new_ann"
    by blast+
  have q: "length (currentEmailList ann_selected) \<le> 3" using b by simp
  from email_add_remove [where st = ann_selected and now = 0 and index = 3] q
  have B: "currentEmailList (emailDelete_click 3 ann_selected) = currentEmailList ann_selected"
    by blast
  have r: "0 < length (currentEmailList ann_selected) \<and>
           distinct (map entry_id (currentEmailList ann_selected))"
    using b by simp
  from email_add_remove [where st = ann_selected and now = 0 and index = 0] r
  have C: "currentEmailList (emailDelete_click 0 ann_selected) =
             removeEmail_by_id (entry_id (currentEmailList ann_selected ! 0))
               (currentEmailList ann_selected)"
    by blast
  from A a v have A': "currentEmailList (emailInput_Enter 5 new_ann) =
      [\<lparr>entry_id = 5, email = str ''ann@x.com''\<rparr>]"
    "currentEmailList (emailDelete_click 0 (emailInput_Enter 5 new_ann)) = []"
    by (simp_all add: pending_text_def)
  from C b have C': "currentEmailList (emailDelete_click 0 ann_selected) =
     removeEmail_by_id 1 (currentEmailList ann_selected)"
    by simp
  from p A' q B r C' show ?thesis by simp
qed

text \<open>
  The claim as it is written fails where two entries carry the same local id: the
  delete buttons of their two rows remove different entries, so the local id does not
  decide what is removed, and neither result is the list without the entries of that id.
\<close>

theorem email_add_remove_counterexample:
  "currentEmailList twins =
     [\<lparr>entry_id = 7, email = str ''a@b.co''\<rparr>, \<lparr>entry_id = 7, email = str ''c@d.eu''\<rparr>] \<and>
   currentEmailList (emailDelete_click 0 twins) = [\<lparr>entry_id = 7, email = str ''c@d.eu''\<rparr>] \<and>
   currentEmailList (emailDelete_click 1 twins) = [\<lparr>entry_id = 7, email = str ''a@b.co''\<rparr>] \<and>
   removeEmail_by_id 7 (currentEmailList twins) = []"
  by (simp add: twins_def run_eval removeEmail_by_id_def)

section \<open>Local ids\<close>

lemma set_visible: "set (visible e q cs) \<subseteq> set cs"
  by (auto simp: visible_def set_js_sort)

lemma list_all_visible: "list_all P cs \<Longrightarrow> list_all P (visible e q cs)"
  using set_visible [of e q cs] by (auto simp: list_all_iff)

lemma distinct_splice1: "distinct (map f xs) \<Longrightarrow> distinct (map f (splice1 i xs))"
  unfolding splice1_def
proof (induction xs arbitrary: i)
  case Nil
  show ?case by simp
next
  case (Cons x xs)
  show ?case
  proof (cases i)
    case 0
    with Cons.prems show ?thesis by simp
  next
    case (Suc j)
    from Cons.prems have "f x \<notin> f ` set xs" and "distinct (map f xs)" by simp_all
    moreover have "set (take j xs @ drop (Suc j) xs) \<subseteq> set xs"
      by (auto dest: in_set_takeD in_set_dropD)
    ultimately show ?thesis using Cons.IH [of j] Suc by auto
  qed
qed

lemma inv_initial: "ids_invariant initial"
  by (simp add: ids_invariant_def initial_def distinct_ids_def)

lemma inv_checkForChanges: "ids_invariant (checkForChanges st) = ids_invariant st"
  by (simp add: ids_invariant_def checkForChanges_def Let_def split: option.splits)

lemma inv_renderEmailList: "ids_invariant (renderEmailList st) = ids_invariant st"
  by (simp add: ids_invariant_def renderEmailList_def addNewEmailInput_def Let_def)

lemma inv_renderContactsList: "ids_invariant st \<Longrightarrow> ids_invariant (renderContactsList e st)"
  by (simp add: ids_invariant_def renderContactsList_eq list_all_visible)

lemma inv_clearForm: "ids_invariant st \<Longrightarrow> ids_invariant (clearForm st)"
  by (simp add: ids_invariant_def clearForm_def renderEmailList_def addNewEmailInput_def
      distinct_ids_def Let_def)

lemma inv_fetchContacts:
  "ids_invariant st \<Longrightarrow> served_list r \<Longrightarrow> ids_invariant (fetchContacts e r st)"
  by (cases r)
     (auto simp: ids_invariant_def fetchContacts_def served_list_def log_error_def
        renderContactsList_eq list_all_visible Let_def split: parsed.splits)

lemma inv_selectContact:
  "ids_invariant st \<Longrightarrow> distinct_ids (emails c) \<Longrightarrow> ids_invariant (selectContact e c st)"
  by (simp add: ids_invariant_def selectContact_def renderContactsList_eq list_all_visible
      renderEmailList_def addNewEmailInput_def checkForChanges_def Let_def split: option.splits)

lemma inv_commit:
  "ids_invariant st \<Longrightarrow> fresh_id now st \<Longrightarrow> ids_invariant (commit_unsaved_email now st)"
  by (cases "emailInput st")
     (auto simp: ids_invariant_def commit_unsaved_email_def fresh_id_def distinct_ids_def
        list_ex_iff Let_def)

lemma inv_saveContact:
  "ids_invariant st \<Longrightarrow> served_contact r \<Longrightarrow> served_list f \<Longrightarrow>
     ids_invariant (saveContact e d r f st)"
proof (cases r)
  case (SaveOk p)
  assume a: "ids_invariant st" "served_contact r" "served_list f"
  show ?thesis
  proof (cases p)
    case (Parsed c)
    from a have "ids_invariant (st\<lparr>requests := requests st @ [save_request d]\<rparr>)"
      by (simp add: ids_invariant_def)
    from inv_fetchContacts [OF this a(3)] a(2) SaveOk Parsed show ?thesis
      by (simp add: saveContact_def save_request_eq inv_selectContact served_contact_def Let_def)
  next
    case (Unparseable m)
    with a SaveOk show ?thesis
      by (simp add: saveContact_def save_failed_def alert_def log_error_def ids_invariant_def Let_def)
  qed
qed (simp_all add: saveContact_def save_failed_def alert_def log_error_def ids_invariant_def
      Let_def split: parsed.splits)

lemma inv_deleteContact:
  "ids_invariant st \<Longrightarrow> served_list f \<Longrightarrow> ids_invariant (deleteContact e i c r f st)"
proof (cases r)
  case DeleteOk
  assume a: "ids_invariant st" "served_list f"
  then have "ids_invariant (st\<lparr>requests := requests st @ [DELETE i]\<rparr>)"
    by (simp add: ids_invariant_def)
  from inv_clearForm [OF inv_fetchContacts [OF this a(2)]] a(1) DeleteOk show ?thesis
    by (simp add: deleteContact_def Let_def)
qed (simp_all add: deleteContact_def delete_failed_def alert_def log_error_def ids_invariant_def
      Let_def)

lemma inv_handle:
  assumes "ids_invariant st" and "fresh_event st ev"
  shows "ids_invariant (handle e ev st)"
proof (cases ev)
  case (Loaded r)
  have "ids_invariant ((clearForm st)\<lparr>formHidden := True\<rparr>)"
    using inv_clearForm [OF assms(1)] by (simp add: ids_invariant_def)
  with assms(2) Loaded show ?thesis by (simp add: DOMContentLoaded_def inv_fetchContacts)
next
  case (ContactItemClick i)
  show ?thesis
  proof (cases "i < length (contactsList st)")
    case True
    with assms(1) have "distinct_ids (emails (contactsList st ! i))"
      by (simp add: ids_invariant_def list_all_length)
    with True assms(1) ContactItemClick show ?thesis
      by (simp add: contactItem_click_def inv_selectContact)
  next
    case False
    with assms(1) ContactItemClick show ?thesis by (simp add: contactItem_click_def)
  qed
next
  case AddContactClick
  have "ids_invariant ((clearForm st)\<lparr>isNewContact := True, formHidden := False\<rparr>)"
    using inv_clearForm [OF assms(1)] by (simp add: ids_invariant_def)
  with AddContactClick show ?thesis by (simp add: addContactBtn_click_def)
next
  case AddEmailClick
  have "ids_invariant (st\<lparr>isAddingEmail := True\<rparr>)" using assms(1) by (simp add: ids_invariant_def)
  with assms(1) AddEmailClick show ?thesis
    by (simp add: addEmailBtn_click_def inv_renderEmailList Let_def split: option.splits)
next
  case (EmailInput v)
  have "ids_invariant (st\<lparr>emailInput := Some v\<rparr>)" using assms(1) by (simp add: ids_invariant_def)
  with assms(1) EmailInput show ?thesis
    by (simp add: emailInput_input_def inv_checkForChanges split: option.splits)
next
  case (EmailEnter now)
  show ?thesis
  proof (cases "emailInput st")
    case None
    with assms(1) EmailEnter show ?thesis by (simp add: emailInput_Enter_def)
  next
    case (Some v)
    let ?st = "st\<lparr>currentEmailList := currentEmailList st @ [\<lparr>entry_id = now, email = trim v\<rparr>]\<rparr>"
    from assms EmailEnter have "ids_invariant ?st"
      by (auto simp: ids_invariant_def fresh_id_def distinct_ids_def list_ex_iff)
    then have "ids_invariant ((renderEmailList ?st)\<lparr>isAddingEmail := False\<rparr>)"
      using inv_renderEmailList [of ?st] by (simp add: ids_invariant_def)
    with assms(1) EmailEnter Some show ?thesis
      by (simp add: emailInput_Enter_def inv_checkForChanges Let_def)
  qed
next
  case (EmailDeleteClick i)
  have "ids_invariant (st\<lparr>currentEmailList := splice1 i (currentEmailList st)\<rparr>)"
    using assms(1) by (simp add: ids_invariant_def distinct_ids_def distinct_splice1)
  with EmailDeleteClick show ?thesis
    by (simp add: emailDelete_click_def inv_checkForChanges inv_renderEmailList)
next
  case (FirstNameInput v)
  have "ids_invariant (st\<lparr>firstNameInput := v\<rparr>)" using assms(1) by (simp add: ids_invariant_def)
  with FirstNameInput show ?thesis by (simp add: firstNameInput_input_def inv_checkForChanges)
next
  case (LastNameInput v)
  have "ids_invariant (st\<lparr>lastNameInput := v\<rparr>)" using assms(1) by (simp add: ids_invariant_def)
  with LastNameInput show ?thesis by (simp add: lastNameInput_input_def inv_checkForChanges)
next
  case (SearchInput v)
  have "ids_invariant (st\<lparr>searchQuery := v\<rparr>)" using assms(1) by (simp add: ids_invariant_def)
  with SearchInput show ?thesis by (simp add: searchInput_input_def inv_renderContactsList)
next
  case (SaveClick now r f)
  with assms show ?thesis
    by (simp add: saveBtn_click_def inv_saveContact inv_commit Let_def)
next
  case (DeleteClick c r f)
  with assms show ?thesis by (simp add: deleteBtn_click_def inv_deleteContact)
next
  case CancelClick
  with assms(1) show ?thesis by (simp add: cancelBtn_click_def inv_clearForm)
qed

lemma inv_run:
  "ids_invariant st \<Longrightarrow> admissible e evs st \<Longrightarrow> ids_invariant (run e evs st)"
  by (induction evs arbitrary: st) (simp_all add: inv_handle)

text \<open>
  C9, as the code has it. In every state reached from the initial one by an admissible
  sequence of events, the committed email list holds no two entries with the same
  local id. The code does nothing to make an id unique: it takes the clock reading.
\<close>

theorem local_ids_distinct:
  "admissible e evs initial \<Longrightarrow> distinct (map entry_id (currentEmailList (run e evs initial)))"
  using inv_run [OF inv_initial, of e evs] by (simp add: ids_invariant_def distinct_ids_def)

theorem local_ids_distinct_witness:
  "admissible ascii_env two_commits initial \<and>
   distinct (map entry_id (currentEmailList (run ascii_env two_commits initial)))"
proof -
  have "admissible ascii_env two_commits initial"
    by (simp add: two_commits_def fresh_id_def run_eval)
  with local_ids_distinct [of ascii_env two_commits] show ?thesis by simp
qed

text \<open>
  The claim as it is written fails when the clock reads the same at two commits: the
  state \<open>twins\<close> is reached from the initial one, and both entries have the id 7.
\<close>

theorem local_ids_distinct_counterexample:
  "map entry_id (currentEmailList twins) = [7, 7] \<and>
   \<not> distinct (map entry_id (currentEmailList twins))"
  by (simp add: twins_def run_eval)

section \<open>Failures\<close>











section \<open>Successful saves and refreshes\<close>







lemma fetchContacts_fields:
  "contacts (fetchContacts e r st) =
     (case r of ListResponded ok (Parsed body) \<Rightarrow> body | _ \<Rightarrow> contacts st)"
  "selectedContactId (fetchContacts e r st) = selectedContactId st"
  "originalContact (fetchContacts e r st) = originalContact st"
  "currentEmailList (fetchContacts e r st) = currentEmailList st"
  "firstNameInput (fetchContacts e r st) = firstNameInput st"
  "lastNameInput (fetchContacts e r st) = lastNameInput st"
  "emailInput (fetchContacts e r st) = emailInput st"
  "isAddingEmail (fetchContacts e r st) = isAddingEmail st"
  "saveDisabled (fetchContacts e r st) = saveDisabled st"
  "alerts (fetchContacts e r st) = alerts st"
  by (cases r; simp add: fetchContacts_def log_error_def renderContactsList_eq Let_def
      split: parsed.splits)+

lemma console_fetchContacts:
  "console (fetchContacts e r st) =
     (case r of
        ListRejected msg \<Rightarrow> console st @ [(str ''Error fetching contacts:'', msg)]
      | ListResponded ok (Unparseable msg) \<Rightarrow> console st @ [(str ''Error fetching contacts:'', msg)]
      | ListResponded ok (Parsed body) \<Rightarrow> console st)"
  by (cases r; simp add: fetchContacts_def log_error_def renderContactsList_eq Let_def
      split: parsed.splits)







text \<open>
  The parts of C8 that hold: a refresh changes nothing of the selection, the snapshot,
  the committed emails and the fields; a refresh that is answered with a list replaces
  the contacts by it; a refresh that fails in the network or whose body is not JSON
  leaves the contacts and writes one error on the console.
\<close>

lemma refresh_frame:
  "selectedContactId (fetchContacts e r st) = selectedContactId st \<and>
   originalContact (fetchContacts e r st) = originalContact st \<and>
   currentEmailList (fetchContacts e r st) = currentEmailList st \<and>
   firstNameInput (fetchContacts e r st) = firstNameInput st \<and>
   lastNameInput (fetchContacts e r st) = lastNameInput st \<and>
   emailInput (fetchContacts e r st) = emailInput st \<and>
   alerts (fetchContacts e r st) = alerts st \<and>
   contacts (fetchContacts e (ListResponded ok (Parsed body)) st) = body \<and>
   contacts (fetchContacts e (ListRejected msg) st) = contacts st \<and>
   contacts (fetchContacts e (ListResponded ok (Unparseable msg)) st) = contacts st \<and>
   console (fetchContacts e (ListRejected msg) st) =
     console st @ [(str ''Error fetching contacts:'', msg)]"
  by (simp add: fetchContacts_fields console_fetchContacts)

text \<open>
  C8. A refresh that the server answers with a status that is not 2xx is not treated
  as failed: \<open>fetchContacts\<close> never looks at the status, unlike \<open>saveContact\<close> and
  \<open>deleteContact\<close>. With Ann Lee in the list and the answer 500 with the body \<open>[]\<close>, the
  contacts held are replaced by the empty list and nothing is written on the console.
\<close>

theorem refresh_ignores_status:
  "fetchContacts e (ListResponded False body) st = fetchContacts e (ListResponded True body) st \<and>
   contacts ann_selected = [ann] \<and> contacts refreshed_500 = [] \<and>
   console refreshed_500 = console ann_selected"
proof -
  have "fetchContacts e (ListResponded False body) st = fetchContacts e (ListResponded True body) st"
    by (simp add: fetchContacts_def)
  moreover have "contacts ann_selected = [ann]"
    by (simp add: ann_selected_def ann_def run_eval)
  ultimately show ?thesis
    by (simp add: refreshed_500_def fetchContacts_fields console_fetchContacts)
qed

end
